theory Spec2Isabelle
  imports Complex_Main "HOL-Library.Multiset" "HOL-Library.Log_Nat"
begin

section \<open>Python values, exceptions and string helpers\<close>

text \<open>
  A dictionary is an association list in insertion order (the order matters: the
  fuzzy key match of the prediction service takes the first matching key).

  \<open>strip\<close>, \<open>lower\<close> and \<open>upper\<close> are \<open>str.strip\<close>, \<open>str.lower\<close> and \<open>str.upper\<close> on ASCII
  strings: \<open>strip\<close> removes the ASCII characters Python counts as white space, \<open>lower\<close>
  and \<open>upper\<close> act on the ASCII letters. The feature names of the prediction service
  are not ASCII, so the service takes the key normalisation \<open>s.strip().lower()\<close> of the
  Python library as a parameter (\<open>strip_lower\<close> below); \<open>ascii_strip_lower\<close> is that
  function on ASCII strings and serves the ASCII examples.
\<close>

datatype exn =
    TypeError string
  | ValueError string
  | KeyError string
  | IndexError string
  | AttributeError string
  | FileNotFoundError string
  | ZeroDivisionError string
  | OverflowError string
  | HTTPException nat string
  | OtherException string

fun exn_str :: "exn \<Rightarrow> string" where
  "exn_str (TypeError m) = m"
| "exn_str (ValueError m) = m"
| "exn_str (KeyError k) = [CHR 0x27] @ k @ [CHR 0x27]"
| "exn_str (IndexError m) = m"
| "exn_str (AttributeError m) = m"
| "exn_str (FileNotFoundError m) = m"
| "exn_str (ZeroDivisionError m) = m"
| "exn_str (OverflowError m) = m"
| "exn_str (HTTPException status detail) = detail"
| "exn_str (OtherException m) = m"

definition is_space :: "char \<Rightarrow> bool" where
  "is_space c = (c \<in> set [CHR 0x09, CHR 0x0A, CHR 0x0B, CHR 0x0C, CHR 0x0D,
                           CHR 0x1C, CHR 0x1D, CHR 0x1E, CHR 0x1F, CHR 0x20])"

definition strip :: "string \<Rightarrow> string" where
  "strip s = rev (dropWhile is_space (rev (dropWhile is_space s)))"

definition lower_char :: "char \<Rightarrow> char" where
  "lower_char c = (let n = (of_char c :: nat) in
                   if 65 \<le> n \<and> n \<le> 90 then char_of (n + 32) else c)"

definition lower :: "string \<Rightarrow> string" where
  "lower s = map lower_char s"

definition upper_char :: "char \<Rightarrow> char" where
  "upper_char c = (let n = (of_char c :: nat) in
                   if 97 \<le> n \<and> n \<le> 122 then char_of (n - 32) else c)"

definition upper :: "string \<Rightarrow> string" where
  "upper s = map upper_char s"

definition ascii_strip_lower :: "string \<Rightarrow> string" where
  "ascii_strip_lower s = lower (strip s)"

text \<open>
  Rounding an exact value to the nearest integer, ties to even, and to one decimal
  the same way. \<open>py_round1\<close> is the \<open>round(x, 1)\<close> of the response endpoints, whose
  aggregation is modelled in exact arithmetic (section on score aggregation).
\<close>

definition py_round :: "rat \<Rightarrow> int" where
  "py_round x = (let f = \<lfloor>x\<rfloor>; d = x - of_int f in
     if d < 1/2 then f else if 1/2 < d then f + 1 else if even f then f else f + 1)"

definition py_round1 :: "rat \<Rightarrow> rat" where
  "py_round1 x = of_int (py_round (x * 10)) / 10"

section \<open>Floating-point numbers\<close>

text \<open>
  A Python \<open>float\<close> (and a \<open>numpy.float64\<close>) is an IEEE 754 binary64 number: a finite
  value, given here by its exact rational value, with \<open>Finite 0\<close> for \<open>0.0\<close> and
  \<open>NegZero\<close> for \<open>-0.0\<close>, or an infinity, or NaN.
\<close>

datatype pyfloat = Finite rat | NegZero | PosInf | NegInf | NaN

text \<open>
  The binary exponent of a positive rational \<open>a\<close>, the integer \<open>e\<close> with
  \<open>2 powi e \<le> a < 2 powi (e + 1)\<close>, from the bit lengths of its numerator and denominator.
\<close>

definition exponent_of :: "rat \<Rightarrow> int" where
  "exponent_of a =
     (case quotient_of a of
        (p, q) \<Rightarrow> let k = bitlen p - bitlen q in if 2 powi k \<le> a then k else k - 1)"

text \<open>
  Rounding of an exact value to binary64, to the nearest, ties to even: 53 significant
  bits, the smallest exponent -1022 (below it the spacing stays \<open>2 powi (- 1074)\<close>), and
  an infinity when the rounded magnitude reaches \<open>2 powi 1024\<close>, that is, when its
  exponent is 1024 or more. Every float operation of the service is the exact operation
  followed by this rounding.
\<close>

definition nearest_double :: "rat \<Rightarrow> pyfloat" where
  "nearest_double x =
     (if x = 0 then Finite 0
      else let a = \<bar>x\<bar>;
               e = max (exponent_of a) (- 1022);
               ulp = 2 powi (e - 52);
               r = of_int (py_round (a / ulp)) * ulp
           in if 1024 \<le> exponent_of r then (if 0 < x then PosInf else NegInf)
              else if r = 0 \<and> x < 0 then NegZero
              else Finite (if 0 < x then r else - r))"

fun is_nan :: "pyfloat \<Rightarrow> bool" where
  "is_nan NaN = True"
| "is_nan x = False"

fun is_inf :: "pyfloat \<Rightarrow> bool" where
  "is_inf PosInf = True"
| "is_inf NegInf = True"
| "is_inf x = False"

fun is_zero :: "pyfloat \<Rightarrow> bool" where
  "is_zero (Finite x) = (x = 0)"
| "is_zero NegZero = True"
| "is_zero x = False"

fun sign_bit :: "pyfloat \<Rightarrow> bool" where
  "sign_bit (Finite x) = (x < 0)"
| "sign_bit NegZero = True"
| "sign_bit NegInf = True"
| "sign_bit x = False"

fun finite_value :: "pyfloat \<Rightarrow> rat" where
  "finite_value (Finite x) = x"
| "finite_value x = 0"

text \<open>The comparisons \<open>a <= b\<close> and \<open>a < b\<close>: false when an operand is NaN.\<close>

definition float_le :: "pyfloat \<Rightarrow> pyfloat \<Rightarrow> bool" where
  "float_le a b =
     (\<not> is_nan a \<and> \<not> is_nan b
      \<and> (a = NegInf \<or> b = PosInf
          \<or> (\<not> is_inf a \<and> \<not> is_inf b \<and> finite_value a \<le> finite_value b)))"

definition float_lt :: "pyfloat \<Rightarrow> pyfloat \<Rightarrow> bool" where
  "float_lt a b = (float_le a b \<and> \<not> float_le b a)"

text \<open>The product \<open>a * b\<close> and the difference \<open>a - b\<close>.\<close>

definition float_mul :: "pyfloat \<Rightarrow> pyfloat \<Rightarrow> pyfloat" where
  "float_mul a b =
     (if is_nan a \<or> is_nan b then NaN
      else if (is_inf a \<and> is_zero b) \<or> (is_zero a \<and> is_inf b) then NaN
      else if is_inf a \<or> is_inf b then (if sign_bit a = sign_bit b then PosInf else NegInf)
      else if is_zero a \<or> is_zero b then (if sign_bit a = sign_bit b then Finite 0 else NegZero)
      else nearest_double (finite_value a * finite_value b))"

definition float_sub :: "pyfloat \<Rightarrow> pyfloat \<Rightarrow> pyfloat" where
  "float_sub a b =
     (if is_nan a \<or> is_nan b then NaN
      else if is_inf a \<and> is_inf b then (if a = b then NaN else a)
      else if is_inf a then a
      else if is_inf b then (if b = PosInf then NegInf else PosInf)
      else if finite_value a - finite_value b = 0
        then (if a = NegZero \<and> b \<noteq> NegZero then NegZero else Finite 0)
      else nearest_double (finite_value a - finite_value b))"

text \<open>
  \<open>round(x)\<close>: the nearest integer of the exact value, ties to even; NaN and the
  infinities raise.
\<close>

fun round_float :: "pyfloat \<Rightarrow> exn + int" where
  "round_float (Finite x) = Inr (py_round x)"
| "round_float NegZero = Inr 0"
| "round_float NaN = Inl (ValueError ''cannot convert float NaN to integer'')"
| "round_float x = Inl (OverflowError ''cannot convert float infinity to integer'')"

text \<open>
  \<open>round(x, 1)\<close>: the exact value is rounded to one decimal, ties to even, and the
  float nearest to that decimal is returned; the sign of a zero result is that of \<open>x\<close>.
\<close>

fun round1_float :: "pyfloat \<Rightarrow> pyfloat" where
  "round1_float (Finite x) =
     (let d = of_int (py_round (x * 10)) / 10 in
      if d = 0 then (if x < 0 then NegZero else Finite 0) else nearest_double d)"
| "round1_float x = x"

text \<open>The float a decimal literal of the source or of an example denotes.\<close>

definition float_literal :: "rat \<Rightarrow> pyfloat" where
  "float_literal x = nearest_double x"

section \<open>Python objects\<close>

text \<open>
  \<open>PyInt\<close> and \<open>PyFloat\<close> are the values for which \<open>isinstance(v, (int, float))\<close> holds.
  \<open>PyOther\<close> is any other object that is not \<open>None\<close>: its printed form, and what
  \<open>float(v)\<close> does with it (a numeric string converts, most objects raise).
\<close>

datatype pyval =
    PyNone
  | PyInt int
  | PyFloat pyfloat
  | PyOther string "exn + pyfloat"

fun is_numeric :: "pyval \<Rightarrow> bool" where
  "is_numeric (PyInt n) = True"
| "is_numeric (PyFloat x) = True"
| "is_numeric v = False"

text \<open>\<open>d.get(k)\<close>: \<open>None\<close> for an absent key, the stored value otherwise.\<close>

definition dict_get :: "(string \<times> pyval) list \<Rightarrow> string \<Rightarrow> pyval" where
  "dict_get d k = (case map_of d k of None \<Rightarrow> PyNone | Some v \<Rightarrow> v)"

section \<open>PredictionService._validate_input\<close>

datatype pyobj =
    NotADict
  | Dict "(string \<times> pyval) list"

text \<open>
  In this section and the next, \<open>strip_lower\<close> is the function \<open>s.strip().lower()\<close> of the
  Python library on strings (Unicode-aware white space and case mapping); it is a
  parameter, and what is proved holds for every function in its place.

  The inner loop of \<open>_validate_input\<close> (lines 82-87), entered with \<open>score = None\<close>:
  the value of the first key, in the dictionary's order, whose stripped lower-case
  form is \<open>feature_clean\<close>; \<open>None\<close> when the loop ends without a \<open>break\<close>.
\<close>

fun fuzzy_loop :: "(string \<Rightarrow> string) \<Rightarrow> string \<Rightarrow> (string \<times> pyval) list \<Rightarrow> pyval" where
  "fuzzy_loop strip_lower feature_clean [] = PyNone"
| "fuzzy_loop strip_lower feature_clean ((user_key, user_val) # items) =
     (if strip_lower user_key = feature_clean then user_val
      else fuzzy_loop strip_lower feature_clean items)"

text \<open>Lines 76-87 (and again 136-142): \<open>score\<close> before the \<open>None\<close> test of line 89.\<close>

definition resolve_score ::
  "(string \<Rightarrow> string) \<Rightarrow> (string \<times> pyval) list \<Rightarrow> string \<Rightarrow> pyval" where
  "resolve_score strip_lower user_scores feature =
     (let score = dict_get user_scores feature in
      if score = PyNone then fuzzy_loop strip_lower (strip_lower feature) user_scores
      else score)"

definition numeric_message :: "string \<Rightarrow> string" where
  "numeric_message feature = [CHR 0x27] @ feature @ [CHR 0x27] @ '' score must be numeric.''"

text \<open>The default score \<open>0.5\<close> of lines 92 and 146.\<close>

definition default_score :: pyval where
  "default_score = PyFloat (Finite (1/2))"

text \<open>
  The loop over \<open>self.feature_names\<close> (lines 75-97), with its two accumulators
  \<open>ordered_scores\<close> and \<open>missing_keys\<close>.
\<close>

fun validate_loop ::
  "(string \<Rightarrow> string) \<Rightarrow> (string \<times> pyval) list \<Rightarrow> string list \<Rightarrow> pyval list \<Rightarrow> string list
   \<Rightarrow> exn + (pyval list \<times> string list)" where
  "validate_loop strip_lower user_scores [] ordered_scores missing_keys =
     Inr (ordered_scores, missing_keys)"
| "validate_loop strip_lower user_scores (feature # features) ordered_scores missing_keys =
     (let score = resolve_score strip_lower user_scores feature in
      if score = PyNone then
        validate_loop strip_lower user_scores features
          (ordered_scores @ [default_score]) (missing_keys @ [feature])
      else if \<not> is_numeric score then Inl (ValueError (numeric_message feature))
      else validate_loop strip_lower user_scores features
             (ordered_scores @ [score]) missing_keys)"

text \<open>
  \<open>_validate_input\<close> returns \<open>ordered_scores\<close>; \<open>missing_keys\<close> is what it reports
  through the logger's warning (line 100). The model returns both.
\<close>

definition validate_input ::
  "(string \<Rightarrow> string) \<Rightarrow> string list \<Rightarrow> pyobj \<Rightarrow> exn + (pyval list \<times> string list)" where
  "validate_input strip_lower feature_names user_scores =
     (case user_scores of
        NotADict \<Rightarrow> Inl (TypeError ''Input must be in 'dict' format.'')
      | Dict d \<Rightarrow> validate_loop strip_lower d feature_names [] [])"

subsection \<open>The three-step rule of the feature-vector builder, as the specification words it\<close>

definition exact_match :: "(string \<times> pyval) list \<Rightarrow> string \<Rightarrow> pyval option" where
  "exact_match user_scores feature = map_of user_scores feature"

definition fuzzy_match ::
  "(string \<Rightarrow> string) \<Rightarrow> (string \<times> pyval) list \<Rightarrow> string \<Rightarrow> pyval option" where
  "fuzzy_match strip_lower user_scores feature =
     map_option snd (find (\<lambda>kv. strip_lower (fst kv) = strip_lower feature) user_scores)"

definition builder_missing ::
  "(string \<Rightarrow> string) \<Rightarrow> (string \<times> pyval) list \<Rightarrow> string \<Rightarrow> bool" where
  "builder_missing strip_lower user_scores feature =
     (exact_match user_scores feature = None
      \<and> fuzzy_match strip_lower user_scores feature = None)"

definition builder_value ::
  "(string \<Rightarrow> string) \<Rightarrow> (string \<times> pyval) list \<Rightarrow> string \<Rightarrow> pyval" where
  "builder_value strip_lower user_scores feature =
     (case exact_match user_scores feature of
        Some v \<Rightarrow> v
      | None \<Rightarrow> (case fuzzy_match strip_lower user_scores feature of
                   Some w \<Rightarrow> w
                 | None \<Rightarrow> default_score))"

text \<open>A score mapping as the signature types it, \<open>Dict[str, float]\<close>: every value numeric.\<close>

definition numeric_scores :: "(string \<times> pyval) list \<Rightarrow> bool" where
  "numeric_scores user_scores = list_all (\<lambda>kv. is_numeric (snd kv)) user_scores"

subsection \<open>Auxiliary functions for stating what the loop computes\<close>

definition score_or_default :: "pyval \<Rightarrow> pyval" where
  "score_or_default v = (if v = PyNone then default_score else v)"

fun is_other :: "pyval \<Rightarrow> bool" where
  "is_other (PyOther s c) = True"
| "is_other v = False"

subsection \<open>A feature name of the repository\<close>

text \<open>
  The canonical feature \<open>Takim Calismasi\<close> of the training query
  (\<open>ml/feature_engineering.py\<close>, lines 62-69) with its Turkish letters (dotless i,
  C with cedilla, s with cedilla) as UTF-8 bytes, and the same name in lower case.
\<close>

definition takim_calismasi :: string where
  "takim_calismasi =
     ''Tak'' @ [CHR 0xC4, CHR 0xB1] @ ''m '' @ [CHR 0xC3, CHR 0x87] @ ''al''
     @ [CHR 0xC4, CHR 0xB1, CHR 0xC5, CHR 0x9F] @ ''mas'' @ [CHR 0xC4, CHR 0xB1]"

definition takim_calismasi_lower :: string where
  "takim_calismasi_lower =
     ''tak'' @ [CHR 0xC4, CHR 0xB1] @ ''m '' @ [CHR 0xC3, CHR 0xA7] @ ''al''
     @ [CHR 0xC4, CHR 0xB1, CHR 0xC5, CHR 0x9F] @ ''mas'' @ [CHR 0xC4, CHR 0xB1]"

section \<open>PredictionService.predict_and_analyze\<close>

text \<open>
  The loaded service object. \<open>scaler_transform\<close> is \<open>self.scaler.transform\<close> and
  \<open>predict_proba\<close> is the first row of \<open>self.model.predict_proba\<close>; both are library
  objects read from disk, so they are parameters that may raise any exception
  (\<open>Inl\<close>) and may return any floats, NaN and the infinities included. \<open>classes\<close> is
  \<open>self.le.classes_\<close>.
\<close>

record service =
  scaler_transform :: "pyval list \<Rightarrow> exn + pyfloat list"
  predict_proba :: "pyfloat list \<Rightarrow> exn + pyfloat list"
  classes :: "string list"
  grup_ortalamalari :: "(string \<times> (string \<times> pyval) list) list"
  feature_names :: "string list"

record uyum_skoru =
  meslek :: string
  uyum :: int

record karsilastirma =
  yetkinlik :: string
  kullanici_skoru :: pyfloat
  grup_ortalamasi :: pyfloat
  fark :: pyfloat

text \<open>
  The two dictionaries the method returns: \<open>{"error": message}\<close>, and the result with
  its three keys.
\<close>

datatype payload =
    ErrorPayload string
  | PredictionResult "uyum_skoru list" string "karsilastirma list"

fun payload_keys :: "payload \<Rightarrow> string list" where
  "payload_keys (ErrorPayload message) = [''error'']"
| "payload_keys (PredictionResult u k y) =
     [''uyum_skorlari'', ''kazanan_meslek'', ''yetkinlik_karsilastirmasi'']"

text \<open>\<open>except (ValueError, TypeError)\<close>: the classes the first handler catches.\<close>

fun is_value_or_type_error :: "exn \<Rightarrow> bool" where
  "is_value_or_type_error (ValueError m) = True"
| "is_value_or_type_error (TypeError m) = True"
| "is_value_or_type_error e = False"

text \<open>
  \<open>numpy.argmax\<close> of a one-dimensional array of floats: a scan that replaces the
  maximum \<open>mp\<close> by an element \<open>x\<close> unless \<open>x <= mp\<close>, and stops at the first NaN, which
  counts as the maximum; so it returns the first position of the largest value, or of
  the first NaN. An empty array raises \<open>ValueError\<close>.
\<close>

fun argmax_loop :: "pyfloat list \<Rightarrow> nat \<Rightarrow> nat \<Rightarrow> pyfloat \<Rightarrow> nat" where
  "argmax_loop [] i max_ind mp = max_ind"
| "argmax_loop (x # xs) i max_ind mp =
     (if is_nan mp then max_ind
      else if \<not> float_le x mp then argmax_loop xs (Suc i) i x
      else argmax_loop xs (Suc i) max_ind mp)"

definition np_argmax :: "pyfloat list \<Rightarrow> exn + nat" where
  "np_argmax xs =
     (case xs of
        [] \<Rightarrow> Inl (ValueError ''attempt to get argmax of an empty sequence'')
      | x # rest \<Rightarrow> Inr (argmax_loop rest 1 0 x))"

text \<open>
  \<open>float(v)\<close>: a float is itself, an int is rounded to the nearest float and raises
  when it is too large, \<open>None\<close> raises, another object does what it does.
\<close>

fun py_float :: "pyval \<Rightarrow> exn + pyfloat" where
  "py_float (PyFloat x) = Inr x"
| "py_float (PyInt n) =
     (if is_inf (nearest_double (of_int n))
      then Inl (OverflowError ''int too large to convert to float'')
      else Inr (nearest_double (of_int n)))"
| "py_float PyNone = Inl (TypeError ''float() argument must be a string or a real number'')"
| "py_float (PyOther s c) = c"

text \<open>
  \<open>sorted(xs, key=key, reverse=True)\<close>: CPython reverses the list, sorts it with its
  stable sort and reverses the result, so that equal keys keep their original order.
\<close>

definition sorted_reverse :: "('a \<Rightarrow> int) \<Rightarrow> 'a list \<Rightarrow> 'a list" where
  "sorted_reverse key xs = rev (sort_key key (rev xs))"

text \<open>
  Lines 121-124: one pair per element of \<open>zip(self.le.classes_, probabilities)\<close>, with
  \<open>round(prob * 100)\<close>. The comprehension is outside every \<open>try\<close>: when \<open>round\<close> raises,
  so does the comprehension.
\<close>

definition round_percent :: "pyfloat \<Rightarrow> exn + int" where
  "round_percent prob = round_float (float_mul prob (Finite 100))"

fun uyum_loop :: "(string \<times> pyfloat) list \<Rightarrow> exn + uyum_skoru list" where
  "uyum_loop [] = Inr []"
| "uyum_loop ((class_name, prob) # pairs) =
     (case round_percent prob of
        Inl e \<Rightarrow> Inl e
      | Inr n \<Rightarrow>
          (case uyum_loop pairs of
             Inl e \<Rightarrow> Inl e
           | Inr rest \<Rightarrow> Inr (\<lparr>meslek = class_name, uyum = n\<rparr> # rest)))"

definition uyum_list :: "string list \<Rightarrow> pyfloat list \<Rightarrow> exn + uyum_skoru list" where
  "uyum_list class_names probabilities = uyum_loop (zip class_names probabilities)"

text \<open>
  Lines 134-166, the body of the loop over the features: the user's score is resolved
  as in \<open>_validate_input\<close>, the group average is \<open>meslek_ortalamalari.get(feature, 0.5)\<close>,
  and any exception inside the \<open>try\<close> gives the row of defaults.
\<close>

definition comparison_row ::
  "(string \<Rightarrow> string) \<Rightarrow> (string \<times> pyval) list \<Rightarrow> (string \<times> pyval) list \<Rightarrow> string
   \<Rightarrow> karsilastirma" where
  "comparison_row strip_lower user_scores meslek_ortalamalari feature =
     (let user_score = (case resolve_score strip_lower user_scores feature of
                          PyNone \<Rightarrow> default_score | v \<Rightarrow> v);
          grup_ort = (case map_of meslek_ortalamalari feature of
                        None \<Rightarrow> default_score | Some v \<Rightarrow> v)
      in case (py_float user_score, py_float grup_ort) of
           (Inr u, Inr g) \<Rightarrow>
             \<lparr>yetkinlik = feature, kullanici_skoru = round1_float u,
              grup_ortalamasi = round1_float g, fark = round1_float (float_sub u g)\<rparr>
         | _ \<Rightarrow>
             \<lparr>yetkinlik = feature, kullanici_skoru = Finite (1/2),
              grup_ortalamasi = Finite (1/2), fark = Finite 0\<rparr>)"

text \<open>
  The decimal numeral of a natural number, and the message of the \<open>IndexError\<close> that
  indexing the array \<open>self.le.classes_\<close> raises.
\<close>

fun string_of_nat :: "nat \<Rightarrow> string" where
  "string_of_nat n =
     (if n < 10 then [char_of (48 + n)]
      else string_of_nat (n div 10) @ [char_of (48 + n mod 10)])"

definition index_message :: "nat \<Rightarrow> nat \<Rightarrow> string" where
  "index_message i n =
     ''index '' @ string_of_nat i @ '' is out of bounds for axis 0 with size '' @ string_of_nat n"

text \<open>Lines 127-166, the body of the outer \<open>try\<close>.\<close>

definition winner_and_comparison ::
  "(string \<Rightarrow> string) \<Rightarrow> service \<Rightarrow> (string \<times> pyval) list \<Rightarrow> pyfloat list
   \<Rightarrow> exn + (string \<times> karsilastirma list)" where
  "winner_and_comparison strip_lower self user_scores probabilities =
     (case np_argmax probabilities of
        Inl e \<Rightarrow> Inl e
      | Inr winner_index \<Rightarrow>
          if winner_index < length (classes self) then
            (let kazanan_meslek = classes self ! winner_index in
             case map_of (grup_ortalamalari self) kazanan_meslek of
               None \<Rightarrow> Inl (KeyError kazanan_meslek)
             | Some meslek_ortalamalari \<Rightarrow>
                 Inr (kazanan_meslek,
                      map (comparison_row strip_lower user_scores meslek_ortalamalari)
                          (feature_names self)))
          else Inl (IndexError (index_message winner_index (length (classes self)))))"

fun dict_items :: "pyobj \<Rightarrow> (string \<times> pyval) list" where
  "dict_items (Dict d) = d"
| "dict_items NotADict = []"

text \<open>
  The method itself. \<open>Inl\<close> is an exception that leaves the method, \<open>Inr\<close> the returned
  dictionary. The first handler catches \<open>ValueError\<close> and \<open>TypeError\<close> only, the second
  and the third every \<open>Exception\<close>; an exception of the comprehension of lines 121-124,
  which no handler encloses, leaves the method.
\<close>

definition predict_and_analyze :: "(string \<Rightarrow> string) \<Rightarrow> service \<Rightarrow> pyobj \<Rightarrow> exn + payload" where
  "predict_and_analyze strip_lower self user_scores =
     (case validate_input strip_lower (feature_names self) user_scores of
        Inl e \<Rightarrow>
          if is_value_or_type_error e then Inr (ErrorPayload (exn_str e)) else Inl e
      | Inr (scores_array, missing_keys) \<Rightarrow>
          (case (case scaler_transform self scores_array of
                   Inl e \<Rightarrow> Inl e
                 | Inr scores_scaled \<Rightarrow> predict_proba self scores_scaled) of
             Inl e \<Rightarrow> Inr (ErrorPayload (''Model prediction error: '' @ exn_str e))
           | Inr probabilities \<Rightarrow>
               (case uyum_list (classes self) probabilities of
                  Inl e \<Rightarrow> Inl e
                | Inr uyum_skorlari \<Rightarrow>
                    (case winner_and_comparison strip_lower self (dict_items user_scores)
                            probabilities of
                       Inl e \<Rightarrow>
                         Inr (ErrorPayload (''Error building comparison: '' @ exn_str e))
                     | Inr (kazanan_meslek, yetkinlik_karsilastirmasi) \<Rightarrow>
                         Inr (PredictionResult (sorted_reverse uyum uyum_skorlari)
                                kazanan_meslek yetkinlik_karsilastirmasi)))))"

subsection \<open>Auxiliary functions for stating what the method computes\<close>

text \<open>
  A probability for which \<open>round(prob * 100)\<close> does not raise (it is finite and so is
  its product with 100), the percentage it then gives, and a probability vector all of
  whose entries that are paired with a class are such.
\<close>

definition has_percentage :: "pyfloat \<Rightarrow> bool" where
  "has_percentage prob = (case round_percent prob of Inl e \<Rightarrow> False | Inr n \<Rightarrow> True)"

definition percentage :: "pyfloat \<Rightarrow> int" where
  "percentage prob = (case round_percent prob of Inl e \<Rightarrow> 0 | Inr n \<Rightarrow> n)"

definition percentages_defined :: "string list \<Rightarrow> pyfloat list \<Rightarrow> bool" where
  "percentages_defined class_names probabilities =
     list_all (\<lambda>cp. has_percentage (snd cp)) (zip class_names probabilities)"

text \<open>A probability in [0, 1], by the comparisons of floats (so NaN is not).\<close>

definition in_unit_interval :: "pyfloat \<Rightarrow> bool" where
  "in_unit_interval prob = (float_le (Finite 0) prob \<and> float_le prob (Finite 1))"

text \<open>
  A number that \<open>float\<close> accepts, every float and every int that is not too large, and
  its value as a float; a mapping all of whose values are such.
\<close>

fun float_value :: "pyval \<Rightarrow> pyfloat" where
  "float_value (PyFloat x) = x"
| "float_value (PyInt n) = nearest_double (of_int n)"
| "float_value v = NaN"

fun convertible :: "pyval \<Rightarrow> bool" where
  "convertible (PyFloat x) = True"
| "convertible (PyInt n) = (\<not> is_inf (nearest_double (of_int n)))"
| "convertible v = False"

definition convertible_scores :: "(string \<times> pyval) list \<Rightarrow> bool" where
  "convertible_scores d = list_all (\<lambda>kv. convertible (snd kv)) d"

text \<open>
  The group average the comparison uses for a feature: the value of the winner's row,
  the neutral default 1/2 for a feature the row does not have.
\<close>

definition group_average :: "(string \<times> pyval) list \<Rightarrow> string \<Rightarrow> pyfloat" where
  "group_average meslek_ortalamalari feature =
     (case map_of meslek_ortalamalari feature of
        None \<Rightarrow> Finite (1/2)
      | Some g \<Rightarrow> float_value g)"

subsection \<open>Example services\<close>

text \<open>
  The stub classifier of the specification's worked example, which answers
  \<open>[0.7, 0.3]\<close>, and a service around it; a service whose label encoder knows a class
  that the group-average table does not; a classifier that answers a NaN.
\<close>

definition identity_scaler :: "pyval list \<Rightarrow> exn + pyfloat list" where
  "identity_scaler scores = Inr (map float_value scores)"

definition stub_classifier :: "pyfloat list \<Rightarrow> exn + pyfloat list" where
  "stub_classifier scaled = Inr [float_literal (7/10), float_literal (3/10)]"

definition failing_scaler :: "pyval list \<Rightarrow> exn + pyfloat list" where
  "failing_scaler scores = Inl (ValueError ''X has 1 features, but the scaler is expecting 2'')"

definition nan_classifier :: "pyfloat list \<Rightarrow> exn + pyfloat list" where
  "nan_classifier scaled = Inr [NaN, Finite 1]"

definition example_service :: service where
  "example_service =
     \<lparr>scaler_transform = identity_scaler, predict_proba = stub_classifier,
      classes = [''Doctor'', ''Engineer''],
      grup_ortalamalari = [(''Doctor'', [(''Empathy'', PyFloat (Finite 4))]),
                           (''Engineer'', [(''Empathy'', PyFloat (Finite 2))])],
      feature_names = [''Empathy'']\<rparr>"

definition drifted_service :: service where
  "drifted_service =
     example_service\<lparr>grup_ortalamalari := [(''Engineer'', [(''Empathy'', PyFloat (Finite 2))])]\<rparr>"

text \<open>
  A service with three classes whose classifier answers \<open>[0.25, 0.375, 0.375]\<close>, and
  the same service with a classifier that answers two probabilities only.
\<close>

definition tie_classifier :: "pyfloat list \<Rightarrow> exn + pyfloat list" where
  "tie_classifier scaled = Inr [Finite (1/4), Finite (3/8), Finite (3/8)]"

definition short_classifier :: "pyfloat list \<Rightarrow> exn + pyfloat list" where
  "short_classifier scaled = Inr [Finite (3/4), Finite (1/4)]"

definition tie_service :: service where
  "tie_service =
     \<lparr>scaler_transform = identity_scaler, predict_proba = tie_classifier,
      classes = [''Doctor'', ''Engineer'', ''Teacher''],
      grup_ortalamalari =
        [(''Doctor'', [(''Empathy'', PyFloat (Finite 4)), (''Logic'', PyFloat (Finite 3))]),
         (''Engineer'', [(''Empathy'', PyFloat (Finite (9/4)))]),
         (''Teacher'', [(''Empathy'', PyFloat (Finite 5)), (''Logic'', PyFloat (Finite 2))])],
      feature_names = [''Empathy'', ''Logic'']\<rparr>"

definition short_service :: service where
  "short_service = tie_service\<lparr>predict_proba := short_classifier\<rparr>"

section \<open>Score aggregation in the responses endpoints\<close>

text \<open>
  Both endpoints read the rows \<open>(score, competency name)\<close> of the user's stored
  responses and average the scores per competency. \<open>submit_responses_and_predict\<close>
  (lines 64-73) cleans the name and rounds the mean; \<open>get_result_from_saved_responses\<close>
  (lines 156-166) rejects an empty row list and then does neither.

  In this section a score is its exact rational value and the sums, the means and
  \<open>round(x, 1)\<close> are the exact ones (the floats of the source round after every
  addition, so that a float sum can depend on the order of its terms).
\<close>

text \<open>\<open>str(comp_name).strip().replace("'", "").replace('"', '')\<close>\<close>

definition clean_name :: "string \<Rightarrow> string" where
  "clean_name comp_name =
     filter (\<lambda>c. c \<noteq> CHR 0x22) (filter (\<lambda>c. c \<noteq> CHR 0x27) (strip comp_name))"

text \<open>\<open>d[k] = v\<close> on a dictionary in insertion order, and \<open>d.get(k, default)\<close>.\<close>

fun dict_set :: "('k \<times> 'v) list \<Rightarrow> 'k \<Rightarrow> 'v \<Rightarrow> ('k \<times> 'v) list" where
  "dict_set [] k v = [(k, v)]"
| "dict_set ((k', v') # d) k v =
     (if k' = k then (k, v) # d else (k', v') # dict_set d k v)"

definition dict_get_default :: "(string \<times> 'v) list \<Rightarrow> string \<Rightarrow> 'v \<Rightarrow> 'v" where
  "dict_get_default d k dflt = (case map_of d k of None \<Rightarrow> dflt | Some v \<Rightarrow> v)"

text \<open>
  The accumulation loop of both endpoints; \<open>key\<close> is \<open>clean_name\<close> in the first and the
  identity in the second.
\<close>

fun accumulate ::
  "(string \<Rightarrow> string) \<Rightarrow> (rat \<times> string) list \<Rightarrow> (string \<times> rat) list \<Rightarrow> (string \<times> nat) list
   \<Rightarrow> (string \<times> rat) list \<times> (string \<times> nat) list" where
  "accumulate key [] totals counts = (totals, counts)"
| "accumulate key ((score, comp_name) # rows) totals counts =
     (let k = key comp_name in
      accumulate key rows
        (dict_set totals k (dict_get_default totals k 0 + score))
        (dict_set counts k (dict_get_default counts k 0 + 1)))"

text \<open>
  The comprehension \<open>{k: f(totals[k] / counts[k]) for k in totals}\<close>, over the keys of
  \<open>totals\<close> in their order; a missing key and a zero count raise.
\<close>

fun average_items ::
  "(rat \<Rightarrow> rat) \<Rightarrow> (string \<times> rat) list \<Rightarrow> (string \<times> nat) list \<Rightarrow> string list
   \<Rightarrow> exn + (string \<times> rat) list" where
  "average_items f totals counts [] = Inr []"
| "average_items f totals counts (k # ks) =
     (case (map_of totals k, map_of counts k) of
        (Some t, Some n) \<Rightarrow>
          if n = 0 then Inl (ZeroDivisionError ''float division by zero'')
          else (case average_items f totals counts ks of
                  Inl e \<Rightarrow> Inl e
                | Inr rest \<Rightarrow> Inr ((k, f (t / of_nat n)) # rest))
      | _ \<Rightarrow> Inl (KeyError k))"

definition submit_user_scores :: "(rat \<times> string) list \<Rightarrow> exn + (string \<times> rat) list" where
  "submit_user_scores rows =
     (case accumulate clean_name rows [] [] of
        (totals, counts) \<Rightarrow> average_items py_round1 totals counts (map fst totals))"

definition saved_user_scores :: "(rat \<times> string) list \<Rightarrow> exn + (string \<times> rat) list" where
  "saved_user_scores rows =
     (if rows = [] then Inl (HTTPException 400 ''No responses found for user'')
      else case accumulate (\<lambda>comp_name. comp_name) rows [] [] of
             (totals, counts) \<Rightarrow> average_items (\<lambda>x. x) totals counts (map fst totals))"

text \<open>The scores and the number of the rows recorded for a competency name.\<close>

definition scores_of :: "(string \<Rightarrow> string) \<Rightarrow> (rat \<times> string) list \<Rightarrow> string \<Rightarrow> rat list" where
  "scores_of key rows k = map fst (filter (\<lambda>r. key (snd r) = k) rows)"

definition mean :: "rat list \<Rightarrow> rat" where
  "mean xs = sum_list xs / of_nat (length xs)"

section \<open>Stored options and responses\<close>

text \<open>
  The tables \<open>scenariooption\<close> and \<open>scenarioresponse\<close> of \<open>models.py\<close>, as lists of
  rows. The response's own key and time stamp are assigned by the database and are
  left out; its column \<open>scenariooptionid\<close> is the field \<open>response_optionid\<close>.
\<close>

record scenario_option =
  scenariooptionid :: int
  scenarioid :: int
  optiontext :: string
  score :: rat

record user_response =
  userid :: int
  response_optionid :: int

record db =
  scenariooption :: "scenario_option list"
  scenarioresponse :: "user_response list"

text \<open>The request item \<open>ResponseIn\<close> of \<open>schemas.py\<close>.\<close>

record response_in =
  scenario_id :: int
  option_letter :: string

text \<open>
  The query used at three places: the options of a scenario, ordered by
  \<open>scenariooptionid\<close>.
\<close>

definition options_of :: "db \<Rightarrow> int \<Rightarrow> scenario_option list" where
  "options_of d sid =
     sort_key scenariooptionid (filter (\<lambda>opt. scenarioid opt = sid) (scenariooption d))"

text \<open>\<open>chr(65 + i)\<close>; a \<open>char\<close> is a byte, so this is Python's character for \<open>i < 191\<close>.\<close>

definition letter_of_index :: "nat \<Rightarrow> char" where
  "letter_of_index i = char_of (65 + i)"

subsection \<open>\<open>convert_option_letter_to_scenariooptionid\<close> (response\_crud.py)\<close>

text \<open>The messages of the three \<open>ValueError\<close>s are given without their arguments.\<close>

definition convert_option_letter_to_scenariooptionid :: "db \<Rightarrow> int \<Rightarrow> string \<Rightarrow> exn + int" where
  "convert_option_letter_to_scenariooptionid d sid letter_in =
     (let options = options_of d sid in
      if options = [] then Inl (ValueError ''No options found for scenario'')
      else case upper letter_in of
        [letter] \<Rightarrow>
          (let option_index = int (of_char letter) - int (of_char CHR ''A'') in
           if option_index < 0 \<or> int (length options) \<le> option_index
           then Inl (ValueError ''Option letter out of range for scenario'')
           else Inr (scenariooptionid (options ! nat option_index)))
      | _ \<Rightarrow> Inl (ValueError ''Invalid option letter''))"

subsection \<open>\<open>save_user_responses\<close> (response\_crud.py)\<close>

text \<open>Lines 58-60: the dictionary \<open>unique_responses\<close>, keyed by scenario.\<close>

fun unique_loop ::
  "response_in list \<Rightarrow> (int \<times> response_in) list \<Rightarrow> (int \<times> response_in) list" where
  "unique_loop [] unique_responses = unique_responses"
| "unique_loop (response # responses) unique_responses =
     unique_loop responses (dict_set unique_responses (scenario_id response) response)"

text \<open>
  Lines 65-74: for every scenario of the payload, the user's responses to any option
  of that scenario are deleted.
\<close>

fun delete_loop :: "db \<Rightarrow> int \<Rightarrow> int list \<Rightarrow> user_response list \<Rightarrow> user_response list" where
  "delete_loop d user_id [] stored = stored"
| "delete_loop d user_id (sid # sids) stored =
     (let option_ids_for_scenario =
            map scenariooptionid (filter (\<lambda>opt. scenarioid opt = sid) (scenariooption d))
      in delete_loop d user_id sids
           (if option_ids_for_scenario \<noteq> []
            then filter (\<lambda>r. \<not> (userid r = user_id
                                 \<and> response_optionid r \<in> set option_ids_for_scenario)) stored
            else stored))"

text \<open>Lines 77-85: one new row per entry of \<open>unique_responses\<close>; a bad letter raises.\<close>

fun insert_loop ::
  "db \<Rightarrow> int \<Rightarrow> response_in list \<Rightarrow> user_response list \<Rightarrow> exn + user_response list" where
  "insert_loop d user_id [] db_responses = Inr db_responses"
| "insert_loop d user_id (response # responses) db_responses =
     (case convert_option_letter_to_scenariooptionid d
             (scenario_id response) (option_letter response) of
        Inl e \<Rightarrow> Inl e
      | Inr oid \<Rightarrow>
          insert_loop d user_id responses
            (db_responses @ [\<lparr>userid = user_id, response_optionid = oid\<rparr>]))"

text \<open>
  The function returns the new state and either the exception it re-raises after the
  rollback or the number of saved responses. The commit checks the table's unique
  constraint on (user, option).
\<close>

definition save_user_responses :: "db \<Rightarrow> response_in list \<Rightarrow> int \<Rightarrow> db \<times> (exn + nat)" where
  "save_user_responses d responses user_id =
     (let unique_responses = unique_loop responses [];
          remaining = delete_loop d user_id (map fst unique_responses) (scenarioresponse d)
      in case insert_loop d user_id (map snd unique_responses) [] of
           Inl e \<Rightarrow> (d, Inl e)
         | Inr db_responses \<Rightarrow>
             if distinct (map (\<lambda>r. (userid r, response_optionid r)) (remaining @ db_responses))
             then (d\<lparr>scenarioresponse := remaining @ db_responses\<rparr>, Inr (length db_responses))
             else (d, Inl (OtherException ''IntegrityError'')))"

subsection \<open>The letters of \<open>get_all_scenarios\<close> and \<open>transform_responses_to_scores\<close>\<close>

text \<open>
  scenario\_crud.py, lines 31-37: the options of one scenario with their letters. The
  relationship \<open>s.options\<close> holds the scenario's options in table order, \<open>sorted\<close> is
  stable.
\<close>

definition options_with_letters :: "db \<Rightarrow> int \<Rightarrow> (string \<times> string) list" where
  "options_with_letters d sid =
     map (\<lambda>(i, opt). ([letter_of_index i], optiontext opt))
         (enumerate 0 (sort_key scenariooptionid
                         (filter (\<lambda>opt. scenarioid opt = sid) (scenariooption d))))"

text \<open>\<open>xs.index(x)\<close>: the first position of \<open>x\<close>, a \<open>ValueError\<close> without one.\<close>

fun list_index :: "'a list \<Rightarrow> 'a \<Rightarrow> nat option" where
  "list_index [] x = None"
| "list_index (y # ys) x = (if y = x then Some 0 else map_option Suc (list_index ys x))"

text \<open>
  transformation\_service.py, lines 46-53: the key under which an option enters the
  score map.
\<close>

definition score_map_key :: "db \<Rightarrow> scenario_option \<Rightarrow> exn + (int \<times> string)" where
  "score_map_key d opt =
     (let scenario_options = options_of d (scenarioid opt) in
      case list_index scenario_options opt of
        None \<Rightarrow> Inl (ValueError ''option is not in list'')
      | Some option_index \<Rightarrow> Inr (scenarioid opt, [letter_of_index option_index]))"

subsection \<open>Reading the stored state\<close>

text \<open>The scenario an option identifier belongs to, and a user's responses to a scenario.\<close>

definition option_scenario :: "db \<Rightarrow> int \<Rightarrow> int option" where
  "option_scenario d oid =
     map_option scenarioid (find (\<lambda>opt. scenariooptionid opt = oid) (scenariooption d))"

definition responses_for :: "db \<Rightarrow> int \<Rightarrow> int \<Rightarrow> user_response list" where
  "responses_for d uid sid =
     filter (\<lambda>r. userid r = uid \<and> option_scenario d (response_optionid r) = Some sid)
            (scenarioresponse d)"

definition at_most_one_response :: "db \<Rightarrow> bool" where
  "at_most_one_response d = (\<forall>uid sid. length (responses_for d uid sid) \<le> 1)"

text \<open>The letter a payload chooses for a scenario: that of its last item for it.\<close>

definition chosen_letter :: "response_in list \<Rightarrow> int \<Rightarrow> string" where
  "chosen_letter responses sid =
     option_letter (last (filter (\<lambda>r. scenario_id r = sid) responses))"

text \<open>The row that the insertion loop builds for an item of the payload.\<close>

definition new_row :: "db \<Rightarrow> int \<Rightarrow> response_in \<Rightarrow> user_response" where
  "new_row d uid r =
     \<lparr>userid = uid,
      response_optionid =
        projr (convert_option_letter_to_scenariooptionid d (scenario_id r) (option_letter r))\<rparr>"

text \<open>Two small stores for the examples: five options each, and 33 options.\<close>

definition example_db :: db where
  "example_db =
     \<lparr>scenariooption =
        [\<lparr>scenariooptionid = 12, scenarioid = 2, optiontext = ''b'', score = 2\<rparr>,
         \<lparr>scenariooptionid = 3, scenarioid = 1, optiontext = ''c'', score = 3\<rparr>,
         \<lparr>scenariooptionid = 1, scenarioid = 1, optiontext = ''a'', score = 1\<rparr>,
         \<lparr>scenariooptionid = 11, scenarioid = 2, optiontext = ''a'', score = 1\<rparr>,
         \<lparr>scenariooptionid = 2, scenarioid = 1, optiontext = ''b'', score = 2\<rparr>],
      scenarioresponse =
        [\<lparr>userid = 7, response_optionid = 1\<rparr>, \<lparr>userid = 8, response_optionid = 2\<rparr>,
         \<lparr>userid = 7, response_optionid = 12\<rparr>]\<rparr>"

definition wide_db :: db where
  "wide_db =
     \<lparr>scenariooption =
        map (\<lambda>i. \<lparr>scenariooptionid = int i, scenarioid = 1, optiontext = ''option'',
                  score = 1\<rparr>) [1..<34],
      scenarioresponse = []\<rparr>"

section \<open>PredictionService.\_\_init\_\_: loading the artifacts\<close>

text \<open>
  The artifact directory is a list of files in the order \<open>glob\<close> enumerates them; a
  file has a name, a modification time and the object \<open>joblib.load\<close> returns for it.
  A classifier and a scaler carry the feature order they were fitted on (the loader
  never reads it), a label encoder its classes, the group-average table its rows.
\<close>

datatype artifact =
    ClassifierObject "string list"
  | ScalerObject "string list"
  | EncoderObject "string list"
  | GroupAverages "(string \<times> (string \<times> pyval) list) list"

record artifact_file =
  file_name :: string
  st_mtime :: rat
  unpickled :: artifact

text \<open>The fields of the service object that \<open>__init__\<close> sets.\<close>

record loaded_artifacts =
  model :: artifact
  scaler :: artifact
  le :: artifact
  grup_ortalamalari_table :: artifact
  feature_order :: "string list"

text \<open>A pattern \<open>prefix*suffix\<close>, as in \<open>glob('lightgbm_optimized_*.pkl')\<close>.\<close>

definition matches :: "string \<Rightarrow> string \<Rightarrow> string \<Rightarrow> bool" where
  "matches prefix suffix n =
     (length prefix + length suffix \<le> length n
      \<and> take (length prefix) n = prefix
      \<and> drop (length n - length suffix) n = suffix)"

definition glob :: "artifact_file list \<Rightarrow> string \<Rightarrow> string \<Rightarrow> artifact_file list" where
  "glob files prefix suffix = filter (\<lambda>f. matches prefix suffix (file_name f)) files"

text \<open>
  \<open>max(files, key=lambda x: x.stat().st_mtime)\<close> on a non-empty list: the first file
  with the largest modification time.
\<close>

fun max_by_mtime :: "artifact_file \<Rightarrow> artifact_file list \<Rightarrow> artifact_file" where
  "max_by_mtime best [] = best"
| "max_by_mtime best (f # fs) =
     (if st_mtime best < st_mtime f then max_by_mtime f fs else max_by_mtime best fs)"

text \<open>\<open>joblib.load(self.artifacts_path / n)\<close>\<close>

definition joblib_load :: "artifact_file list \<Rightarrow> string \<Rightarrow> exn + artifact" where
  "joblib_load files n =
     (case find (\<lambda>f. file_name f = n) files of
        None \<Rightarrow> Inl (FileNotFoundError n)
      | Some f \<Rightarrow> Inr (unpickled f))"

text \<open>Lines 30-39 and 44-51.\<close>

definition load_latest :: "artifact_file list \<Rightarrow> string \<Rightarrow> string \<Rightarrow> string \<Rightarrow> exn + artifact" where
  "load_latest files prefix suffix legacy =
     (case glob files prefix suffix of
        [] \<Rightarrow> joblib_load files legacy
      | f # fs \<Rightarrow> Inr (unpickled (max_by_mtime f fs)))"

definition load_model :: "artifact_file list \<Rightarrow> exn + artifact" where
  "load_model files = load_latest files ''lightgbm_optimized_'' ''.pkl'' ''best_model.joblib''"

definition load_encoder :: "artifact_file list \<Rightarrow> exn + artifact" where
  "load_encoder files = load_latest files ''label_encoder_'' ''.pkl'' ''label_encoder.joblib''"

text \<open>Line 54: \<open>list(list(self.grup_ortalamalari.values())[0].keys())\<close>\<close>

definition first_entry_keys :: "artifact \<Rightarrow> exn + string list" where
  "first_entry_keys obj =
     (case obj of
        GroupAverages table \<Rightarrow>
          (case table of
             [] \<Rightarrow> Inl (IndexError ''list index out of range'')
           | (occupation, row) # rest \<Rightarrow> Inr (map fst row))
      | _ \<Rightarrow> Inl (AttributeError ''object has no attribute values''))"

text \<open>
  The constructor. Its handler for \<open>FileNotFoundError\<close> logs and re-raises, so every
  exception leaves the constructor (\<open>Inl\<close>).
\<close>

definition init :: "artifact_file list \<Rightarrow> exn + loaded_artifacts" where
  "init files =
     (case load_model files of
        Inl e \<Rightarrow> Inl e
      | Inr m \<Rightarrow>
     (case joblib_load files ''scaler.joblib'' of
        Inl e \<Rightarrow> Inl e
      | Inr s \<Rightarrow>
     (case load_encoder files of
        Inl e \<Rightarrow> Inl e
      | Inr l \<Rightarrow>
     (case joblib_load files ''grup_ortalamalari.joblib'' of
        Inl e \<Rightarrow> Inl e
      | Inr g \<Rightarrow>
     (case first_entry_keys g of
        Inl e \<Rightarrow> Inl e
      | Inr names \<Rightarrow>
          Inr \<lparr>model = m, scaler = s, le = l, grup_ortalamalari_table = g,
               feature_order = names\<rparr>)))))"

text \<open>
  Agreement of the artifacts on the feature order, as the specification requires it:
  the classifier and the scaler were fitted on the canonical order, and every row of
  the group-average table lists its keys in that order.
\<close>

definition artifacts_agree :: "loaded_artifacts \<Rightarrow> bool" where
  "artifacts_agree b =
     (case (model b, scaler b, grup_ortalamalari_table b) of
        (ClassifierObject cf, ScalerObject sf, GroupAverages table) \<Rightarrow>
          cf = feature_order b \<and> sf = feature_order b
          \<and> list_all (\<lambda>entry. map fst (snd entry) = feature_order b) table
      | _ \<Rightarrow> False)"

text \<open>A file is present under a name.\<close>

definition present :: "artifact_file list \<Rightarrow> string \<Rightarrow> bool" where
  "present files n = (n \<in> file_name ` set files)"

text \<open>Two artifact directories for the examples.\<close>

definition example_table :: "(string \<times> (string \<times> pyval) list) list" where
  "example_table =
     [(''Doctor'', [(''Empathy'', PyFloat (Finite 4)), (''Logic'', PyFloat (Finite 3))]),
      (''Engineer'', [(''Empathy'', PyFloat (Finite 2)), (''Logic'', PyFloat (Finite 5))])]"

definition example_files :: "artifact_file list" where
  "example_files =
     [\<lparr>file_name = ''lightgbm_optimized_20240101.pkl'', st_mtime = 100,
       unpickled = ClassifierObject [''Logic'', ''Empathy'']\<rparr>,
      \<lparr>file_name = ''scaler.joblib'', st_mtime = 50,
       unpickled = ScalerObject [''Empathy'', ''Logic'']\<rparr>,
      \<lparr>file_name = ''lightgbm_optimized_20240301.pkl'', st_mtime = 300,
       unpickled = ClassifierObject [''Empathy'', ''Logic'']\<rparr>,
      \<lparr>file_name = ''label_encoder.joblib'', st_mtime = 50,
       unpickled = EncoderObject [''Doctor'', ''Engineer'']\<rparr>,
      \<lparr>file_name = ''grup_ortalamalari.joblib'', st_mtime = 50,
       unpickled = GroupAverages example_table\<rparr>,
      \<lparr>file_name = ''best_model.joblib'', st_mtime = 400,
       unpickled = ClassifierObject [''Empathy'']\<rparr>]"

definition mismatched_files :: "artifact_file list" where
  "mismatched_files =
     [\<lparr>file_name = ''lightgbm_optimized_20240301.pkl'', st_mtime = 300,
       unpickled = ClassifierObject [''Logic'', ''Empathy'']\<rparr>,
      \<lparr>file_name = ''scaler.joblib'', st_mtime = 50,
       unpickled = ScalerObject [''Logic'', ''Empathy'']\<rparr>,
      \<lparr>file_name = ''label_encoder.joblib'', st_mtime = 50,
       unpickled = EncoderObject [''Doctor'', ''Engineer'']\<rparr>,
      \<lparr>file_name = ''grup_ortalamalari.joblib'', st_mtime = 50,
       unpickled = GroupAverages example_table\<rparr>]"

section \<open>Lemmas about the feature-vector builder\<close>

lemma is_other_iff: "is_other v \<longleftrightarrow> v \<noteq> PyNone \<and> \<not> is_numeric v"
  by (cases v) simp_all

lemma validate_loop_ok:
  "list_all (\<lambda>f. \<not> is_other (resolve_score sl d f)) fs \<Longrightarrow>
   validate_loop sl d fs acc miss =
     Inr (acc @ map (\<lambda>f. score_or_default (resolve_score sl d f)) fs,
          miss @ filter (\<lambda>f. resolve_score sl d f = PyNone) fs)"
proof (induction fs arbitrary: acc miss)
  case Nil
  then show ?case by simp
next
  case (Cons f fs)
  then show ?case
    by (cases "resolve_score sl d f") (simp_all add: Let_def score_or_default_def)
qed

lemma validate_loop_raises:
  "\<not> list_all (\<lambda>f. \<not> is_other (resolve_score sl d f)) fs \<Longrightarrow>
   \<exists>g \<in> set fs. is_other (resolve_score sl d g) \<and>
      validate_loop sl d fs acc miss = Inl (ValueError (numeric_message g))"
proof (induction fs arbitrary: acc miss)
  case Nil
  then show ?case by simp
next
  case (Cons f fs)
  show ?case
  proof (cases "is_other (resolve_score sl d f)")
    case True
    then show ?thesis by (simp add: Let_def is_other_iff)
  next
    case False
    with Cons.prems have "\<not> list_all (\<lambda>f. \<not> is_other (resolve_score sl d f)) fs" by simp
    from Cons.IH[OF this] False show ?thesis
      by (auto simp: Let_def is_other_iff)
  qed
qed

lemma fuzzy_loop_find:
  "fuzzy_loop sl c d = (case find (\<lambda>kv. sl (fst kv) = c) d of
                          None \<Rightarrow> PyNone | Some kv \<Rightarrow> snd kv)"
  by (induction sl c d rule: fuzzy_loop.induct) simp_all

lemma numeric_scores_map_of:
  "numeric_scores d \<Longrightarrow> map_of d k = Some v \<Longrightarrow> is_numeric v"
  unfolding numeric_scores_def
  by (induction d) (auto split: if_splits)

lemma numeric_scores_find:
  "numeric_scores d \<Longrightarrow> find P d = Some kv \<Longrightarrow> is_numeric (snd kv)"
  unfolding numeric_scores_def
  by (induction d) (auto split: if_splits)

lemma map_of_find_clean:
  "map_of d k = Some v \<Longrightarrow> find (\<lambda>kv. sl (fst kv) = sl k) d \<noteq> None"
  by (induction d) (auto split: if_splits)

lemma is_numeric_not_none: "is_numeric v \<Longrightarrow> v \<noteq> PyNone"
  by (cases v) simp_all

lemma resolve_numeric:
  assumes "numeric_scores d"
  shows "resolve_score sl d f = (if builder_missing sl d f then PyNone else builder_value sl d f)"
proof (cases "map_of d f")
  case None
  show ?thesis
  proof (cases "find (\<lambda>kv. sl (fst kv) = sl f) d")
    case N2: None
    with None show ?thesis
      by (simp add: resolve_score_def dict_get_def fuzzy_loop_find builder_missing_def
          exact_match_def fuzzy_match_def)
  next
    case (Some kv)
    with None show ?thesis
      by (simp add: resolve_score_def dict_get_def fuzzy_loop_find builder_missing_def
          builder_value_def exact_match_def fuzzy_match_def)
  qed
next
  case (Some v)
  from numeric_scores_map_of[OF assms Some] have "v \<noteq> PyNone"
    by (rule is_numeric_not_none)
  with Some show ?thesis
    by (simp add: resolve_score_def dict_get_def builder_missing_def builder_value_def
        exact_match_def)
qed

lemma builder_value_numeric:
  assumes "numeric_scores d"
  shows "is_numeric (builder_value sl d f)"
proof (cases "map_of d f")
  case None
  show ?thesis
  proof (cases "find (\<lambda>kv. sl (fst kv) = sl f) d")
    case N2: None
    with None show ?thesis
      by (simp add: builder_value_def exact_match_def fuzzy_match_def default_score_def)
  next
    case (Some kv)
    from numeric_scores_find[OF assms Some] None Some show ?thesis
      by (simp add: builder_value_def exact_match_def fuzzy_match_def)
  qed
next
  case (Some v)
  from numeric_scores_map_of[OF assms Some] Some show ?thesis
    by (simp add: builder_value_def exact_match_def)
qed

lemma builder_missing_value:
  "builder_missing sl d f \<Longrightarrow> builder_value sl d f = PyFloat (Finite (1/2))"
  by (simp add: builder_missing_def builder_value_def default_score_def)

lemma score_or_default_resolve:
  assumes "numeric_scores d"
  shows "score_or_default (resolve_score sl d f) = builder_value sl d f"
proof (cases "builder_missing sl d f")
  case True
  then show ?thesis
    by (simp add: resolve_numeric[OF assms] score_or_default_def builder_missing_value
        default_score_def)
next
  case False
  from builder_value_numeric[OF assms, of sl f] have "builder_value sl d f \<noteq> PyNone"
    by (rule is_numeric_not_none)
  with False show ?thesis
    by (simp add: resolve_numeric[OF assms] score_or_default_def)
qed

lemma resolve_not_other:
  assumes "numeric_scores d"
  shows "\<not> is_other (resolve_score sl d f)"
  using builder_value_numeric[OF assms, of sl f]
  by (simp add: resolve_numeric[OF assms] is_other_iff)

text \<open>
  A feature name that is not ASCII: with a key normalisation that, like Python's, maps
  the capitalised and the lower-case spelling of \<open>Takim Calismasi\<close> to the same string,
  the score a user sends under the lower-case key is the entry of the feature.
\<close>

lemma validate_input_unicode_example:
  assumes "strip_lower takim_calismasi = strip_lower takim_calismasi_lower"
  shows "validate_input strip_lower [takim_calismasi] (Dict [(takim_calismasi_lower, PyInt 4)])
         = Inr ([PyInt 4], [])"
proof -
  have "takim_calismasi_lower \<noteq> takim_calismasi"
    by (simp add: takim_calismasi_def takim_calismasi_lower_def)
  then have "resolve_score strip_lower [(takim_calismasi_lower, PyInt 4)] takim_calismasi
             = PyInt 4"
    using assms by (simp add: resolve_score_def dict_get_def)
  then show ?thesis by (simp add: validate_input_def)
qed

section \<open>Claims about the feature-vector builder\<close>

text \<open>
  Claim C2. For a score mapping (every value numeric, as the signature
  \<open>Dict[str, float]\<close> says) and the canonical feature list, \<open>_validate_input\<close> returns,
  feature by feature and in canonical order, the value of the exact key if there is
  one, otherwise the value of the first key that matches it after \<open>strip().lower()\<close> on
  both sides, otherwise the neutral default 0.5; the features that took the default are
  exactly the reported missing ones, in order. The vector has one entry per canonical
  feature, a defaulted entry is 0.5 (not 0), and for the empty mapping every feature is
  defaulted and reported. This holds whatever function \<open>strip().lower()\<close> is.
\<close>

theorem validate_input_three_step_rule:
  assumes "numeric_scores user_scores"
  shows "validate_input strip_lower features (Dict user_scores) =
           Inr (map (builder_value strip_lower user_scores) features,
                filter (builder_missing strip_lower user_scores) features)
         \<and> length (map (builder_value strip_lower user_scores) features) = length features
         \<and> (\<forall>f \<in> set features. builder_missing strip_lower user_scores f \<longrightarrow>
               builder_value strip_lower user_scores f = PyFloat (Finite (1/2))
               \<and> f \<in> set (filter (builder_missing strip_lower user_scores) features))
         \<and> validate_input strip_lower features (Dict []) =
             Inr (replicate (length features) (PyFloat (Finite (1/2))), features)"
proof -
  have ok: "list_all (\<lambda>f. \<not> is_other (resolve_score strip_lower user_scores f)) features"
    by (simp add: list_all_iff resolve_not_other[OF assms])
  have m: "map (\<lambda>f. score_or_default (resolve_score strip_lower user_scores f)) features
           = map (builder_value strip_lower user_scores) features"
    by (rule map_cong) (simp_all add: score_or_default_resolve[OF assms])
  have f: "filter (\<lambda>f. resolve_score strip_lower user_scores f = PyNone) features
           = filter (builder_missing strip_lower user_scores) features"
  proof (rule filter_cong)
    fix g
    from builder_value_numeric[OF assms, of strip_lower g]
    have "builder_value strip_lower user_scores g \<noteq> PyNone" by (rule is_numeric_not_none)
    then show "(resolve_score strip_lower user_scores g = PyNone)
               = builder_missing strip_lower user_scores g"
      by (simp add: resolve_numeric[OF assms])
  qed simp
  have main: "validate_input strip_lower features (Dict user_scores) =
           Inr (map (builder_value strip_lower user_scores) features,
                filter (builder_missing strip_lower user_scores) features)"
    using validate_loop_ok[OF ok, of "[]" "[]"] m f by (simp add: validate_input_def)
  have e1: "list_all (\<lambda>f. \<not> is_other (resolve_score strip_lower [] f)) features"
    by (simp add: list_all_iff resolve_score_def dict_get_def)
  have e2: "map (\<lambda>f. score_or_default (resolve_score strip_lower [] f)) features
            = replicate (length features) (PyFloat (Finite (1/2)))"
    by (simp add: resolve_score_def dict_get_def map_replicate_const score_or_default_def
        default_score_def)
  have empty: "validate_input strip_lower features (Dict []) =
             Inr (replicate (length features) (PyFloat (Finite (1/2))), features)"
    using validate_loop_ok[OF e1, of "[]" "[]"] e2
    by (simp add: validate_input_def resolve_score_def dict_get_def)
  show ?thesis using main empty by (simp add: builder_missing_value)
qed

theorem validate_input_three_step_rule_witness:
  "numeric_scores [('' empathy '', PyFloat (Finite 3)), (''Logic'', PyInt 4)]
   \<and> validate_input ascii_strip_lower [''Empathy'', ''Logic'', ''Focus'']
         (Dict [('' empathy '', PyFloat (Finite 3)), (''Logic'', PyInt 4)])
       = Inr ([PyFloat (Finite 3), PyInt 4, PyFloat (Finite (1/2))], [''Focus''])"
proof -
  let ?d = "[('' empathy '', PyFloat (Finite 3)), (''Logic'', PyInt 4)]"
  let ?fs = "[''Empathy'', ''Logic'', ''Focus'']"
  have h: "numeric_scores ?d" by code_simp
  have v: "map (builder_value ascii_strip_lower ?d) ?fs
           = [PyFloat (Finite 3), PyInt 4, PyFloat (Finite (1/2))]" by code_simp
  have m: "filter (builder_missing ascii_strip_lower ?d) ?fs = [''Focus'']" by code_simp
  have "validate_input ascii_strip_lower ?fs (Dict ?d)
        = Inr (map (builder_value ascii_strip_lower ?d) ?fs,
               filter (builder_missing ascii_strip_lower ?d) ?fs)"
    using validate_input_three_step_rule[OF h, of ascii_strip_lower ?fs] by (rule conjunct1)
  then have "validate_input ascii_strip_lower ?fs (Dict ?d)
             = Inr ([PyFloat (Finite 3), PyInt 4, PyFloat (Finite (1/2))], [''Focus''])"
    unfolding v m .
  with h show ?thesis by (rule conjI)
qed

lemma fuzzy_loop_skip:
  "list_all (\<lambda>kv. sl (fst kv) \<noteq> c) before \<Longrightarrow>
   fuzzy_loop sl c (before @ rest) = fuzzy_loop sl c rest"
  by (induction before) auto

lemma map_of_skip:
  "list_all (\<lambda>kv. fst kv \<noteq> k) before \<Longrightarrow> map_of (before @ rest) k = map_of rest k"
  by (induction before) auto

lemma resolve_score_present:
  "resolve_score sl d f = v \<Longrightarrow> v \<noteq> PyNone \<Longrightarrow> \<exists>k. (k, v) \<in> set d"
proof -
  assume r: "resolve_score sl d f = v" and n: "v \<noteq> PyNone"
  have fl: "fuzzy_loop sl c d = v \<Longrightarrow> \<exists>k. (k, v) \<in> set d" for c
    using n by (induction sl c d rule: fuzzy_loop.induct) (auto split: if_splits)
  show ?thesis
  proof (cases "dict_get d f = PyNone")
    case True
    with r show ?thesis by (simp add: resolve_score_def fl)
  next
    case False
    then obtain w where w: "map_of d f = Some w" "w = v"
      using r by (auto simp: resolve_score_def dict_get_def split: option.splits)
    then show ?thesis by (auto dest: map_of_SomeD)
  qed
qed

lemma numeric_message_inject: "numeric_message g = numeric_message f \<Longrightarrow> g = f"
  by (simp add: numeric_message_def)

lemma validate_input_Inr:
  assumes "validate_input sl fs (Dict d) = Inr (v, m)"
  shows "list_all (\<lambda>f. \<not> is_other (resolve_score sl d f)) fs
       \<and> v = map (\<lambda>f. score_or_default (resolve_score sl d f)) fs
       \<and> m = filter (\<lambda>f. resolve_score sl d f = PyNone) fs"
proof -
  have ok: "list_all (\<lambda>f. \<not> is_other (resolve_score sl d f)) fs"
  proof (rule ccontr)
    assume "\<not> ?thesis"
    from validate_loop_raises[OF this, of "[]" "[]"] assms show False
      by (auto simp: validate_input_def)
  qed
  from validate_loop_ok[OF ok, of "[]" "[]"] assms ok show ?thesis
    by (simp add: validate_input_def)
qed

lemma validate_input_Inl:
  assumes "validate_input sl fs (Dict d) = Inl e"
  shows "\<exists>g \<in> set fs. is_other (resolve_score sl d g) \<and> e = ValueError (numeric_message g)"
proof -
  have nok: "\<not> list_all (\<lambda>f. \<not> is_other (resolve_score sl d f)) fs"
  proof
    assume "list_all (\<lambda>f. \<not> is_other (resolve_score sl d f)) fs"
    from validate_loop_ok[OF this, of "[]" "[]"] assms show False
      by (simp add: validate_input_def)
  qed
  from validate_loop_raises[OF nok, of "[]" "[]"] assms show ?thesis
    by (auto simp: validate_input_def)
qed

text \<open>
  Claim C10, as amended. A feature whose value under the exactly matching key is
  \<open>None\<close> is resolved by the scan over the keys: when no key before it (in the
  mapping's order) matches the feature after \<open>strip().lower()\<close> on both sides, the
  feature is treated as missing, that is, every position of the vector that belongs to
  it holds the default 0.5 and the feature is in the reported missing list, and the
  \<open>ValueError\<close> for this feature is not raised. For every mapping, a feature whose exact
  lookup gives \<open>None\<close> takes the value of the first key that matches it after
  \<open>strip().lower()\<close>; the \<open>ValueError\<close> is raised only for a feature whose resolved value
  is stored in the mapping and is neither \<open>None\<close> nor numeric; and without such a
  feature the function returns. This holds whatever function \<open>strip().lower()\<close> is.
\<close>

theorem validate_input_none_value:
  "(\<forall>before rest feature.
       user_scores = before @ (feature, PyNone) # rest
       \<and> list_all (\<lambda>kv. strip_lower (fst kv) \<noteq> strip_lower feature) before
       \<and> feature \<in> set features \<longrightarrow>
       resolve_score strip_lower user_scores feature = PyNone
       \<and> validate_input strip_lower features (Dict user_scores)
           \<noteq> Inl (ValueError (numeric_message feature))
       \<and> (\<forall>r. validate_input strip_lower features (Dict user_scores) = Inr r \<longrightarrow>
             feature \<in> set (snd r)
             \<and> (\<forall>i < length features. features ! i = feature \<longrightarrow>
                   fst r ! i = PyFloat (Finite (1/2)))))
   \<and> (\<forall>e. validate_input strip_lower features (Dict user_scores) = Inl e \<longrightarrow>
         (\<exists>g \<in> set features. \<exists>k s c. (k, PyOther s c) \<in> set user_scores
             \<and> resolve_score strip_lower user_scores g = PyOther s c
             \<and> e = ValueError (numeric_message g)))
   \<and> (list_all (\<lambda>g. \<not> is_other (resolve_score strip_lower user_scores g)) features \<longrightarrow>
         (\<exists>r. validate_input strip_lower features (Dict user_scores) = Inr r))
   \<and> (\<forall>f. dict_get user_scores f = PyNone \<longrightarrow>
         resolve_score strip_lower user_scores f =
           (case fuzzy_match strip_lower user_scores f of None \<Rightarrow> PyNone | Some v \<Rightarrow> v))"
proof -
  let ?ok = "list_all (\<lambda>g. \<not> is_other (resolve_score strip_lower user_scores g)) features"
  let ?val = "validate_input strip_lower features (Dict user_scores)"
  have AB: "resolve_score strip_lower user_scores feature = PyNone
       \<and> ?val \<noteq> Inl (ValueError (numeric_message feature))
       \<and> (\<forall>r. ?val = Inr r \<longrightarrow>
             feature \<in> set (snd r)
             \<and> (\<forall>i < length features. features ! i = feature \<longrightarrow>
                   fst r ! i = PyFloat (Finite (1/2))))"
    if h: "user_scores = before @ (feature, PyNone) # rest"
      "list_all (\<lambda>kv. strip_lower (fst kv) \<noteq> strip_lower feature) before"
      "feature \<in> set features" for before rest feature
  proof -
    have keys: "list_all (\<lambda>kv. fst kv \<noteq> feature) before"
      using h(2) by (auto simp: list_all_iff)
    have dg: "dict_get user_scores feature = PyNone"
      using map_of_skip[OF keys, of "(feature, PyNone) # rest"]
      by (simp add: h(1) dict_get_def)
    have A: "resolve_score strip_lower user_scores feature = PyNone"
      using fuzzy_loop_skip[OF h(2), of "(feature, PyNone) # rest"] dg
      by (simp add: resolve_score_def h(1))
    have N: "?val \<noteq> Inl (ValueError (numeric_message feature))"
    proof
      assume "?val = Inl (ValueError (numeric_message feature))"
      from validate_input_Inl[OF this] obtain g
        where g: "is_other (resolve_score strip_lower user_scores g)"
          "numeric_message feature = numeric_message g" by auto
      from numeric_message_inject[OF g(2)] g(1) A show False by simp
    qed
    have B: "feature \<in> set (snd r)
           \<and> (\<forall>i < length features. features ! i = feature \<longrightarrow>
                 fst r ! i = PyFloat (Finite (1/2)))"
      if r: "?val = Inr r" for r
    proof -
      obtain v m where vm: "r = (v, m)" by (cases r)
      from validate_input_Inr[OF r[unfolded vm]]
      have req: "v = map (\<lambda>f. score_or_default (resolve_score strip_lower user_scores f)) features"
        "m = filter (\<lambda>f. resolve_score strip_lower user_scores f = PyNone) features"
        by simp_all
      show ?thesis using A h(3)
        by (auto simp: vm req score_or_default_def default_score_def)
    qed
    from A N B show ?thesis by blast
  qed
  have C: "\<exists>g \<in> set features. \<exists>k s c. (k, PyOther s c) \<in> set user_scores
             \<and> resolve_score strip_lower user_scores g = PyOther s c
             \<and> e = ValueError (numeric_message g)"
    if e: "?val = Inl e" for e
  proof -
    from validate_input_Inl[OF e]
    obtain g where g: "g \<in> set features" "is_other (resolve_score strip_lower user_scores g)"
      "e = ValueError (numeric_message g)"
      by auto
    from g(2) obtain s c where s: "resolve_score strip_lower user_scores g = PyOther s c"
      by (cases "resolve_score strip_lower user_scores g") auto
    from resolve_score_present[OF s] obtain k where "(k, PyOther s c) \<in> set user_scores"
      by auto
    then show ?thesis using g s by blast
  qed
  have D: "?ok \<longrightarrow> (\<exists>r. ?val = Inr r)"
    using validate_loop_ok[of strip_lower user_scores features "[]" "[]"]
    by (auto simp: validate_input_def)
  have E: "\<forall>f. dict_get user_scores f = PyNone \<longrightarrow>
             resolve_score strip_lower user_scores f =
               (case fuzzy_match strip_lower user_scores f of None \<Rightarrow> PyNone | Some v \<Rightarrow> v)"
    by (auto simp: resolve_score_def fuzzy_loop_find fuzzy_match_def split: option.splits)
  have AB': "\<forall>before rest feature.
       user_scores = before @ (feature, PyNone) # rest
       \<and> list_all (\<lambda>kv. strip_lower (fst kv) \<noteq> strip_lower feature) before
       \<and> feature \<in> set features \<longrightarrow>
       resolve_score strip_lower user_scores feature = PyNone
       \<and> ?val \<noteq> Inl (ValueError (numeric_message feature))
       \<and> (\<forall>r. ?val = Inr r \<longrightarrow>
             feature \<in> set (snd r)
             \<and> (\<forall>i < length features. features ! i = feature \<longrightarrow>
                   fst r ! i = PyFloat (Finite (1/2))))"
  proof (intro allI impI)
    fix before rest feature
    assume "user_scores = before @ (feature, PyNone) # rest
       \<and> list_all (\<lambda>kv. strip_lower (fst kv) \<noteq> strip_lower feature) before
       \<and> feature \<in> set features"
    then show "resolve_score strip_lower user_scores feature = PyNone
       \<and> ?val \<noteq> Inl (ValueError (numeric_message feature))
       \<and> (\<forall>r. ?val = Inr r \<longrightarrow>
             feature \<in> set (snd r)
             \<and> (\<forall>i < length features. features ! i = feature \<longrightarrow>
                   fst r ! i = PyFloat (Finite (1/2))))"
      using AB[of before feature rest] by (elim conjE)
  qed
  have C': "\<forall>e. ?val = Inl e \<longrightarrow>
         (\<exists>g \<in> set features. \<exists>k s c. (k, PyOther s c) \<in> set user_scores
             \<and> resolve_score strip_lower user_scores g = PyOther s c
             \<and> e = ValueError (numeric_message g))"
    using C by blast
  show ?thesis by (intro conjI AB' C' D E)
qed

theorem validate_input_none_value_witness:
  "resolve_score ascii_strip_lower
       [(''Logic'', PyInt 2), (''Empathy'', PyNone), (''EMPATHY'', PyFloat (Finite 3))]
       ''Empathy'' = PyNone
   \<and> validate_input ascii_strip_lower [''Empathy'', ''Logic'']
       (Dict [(''Logic'', PyInt 2), (''Empathy'', PyNone), (''EMPATHY'', PyFloat (Finite 3))])
     \<noteq> Inl (ValueError (numeric_message ''Empathy''))
   \<and> validate_input ascii_strip_lower [''Empathy'', ''Logic'']
       (Dict [(''Logic'', PyInt 2), (''Empathy'', PyNone), (''EMPATHY'', PyFloat (Finite 3))])
     = Inr ([PyFloat (Finite (1/2)), PyInt 2], [''Empathy''])"
proof -
  let ?d = "[(''Logic'', PyInt 2), (''Empathy'', PyNone), (''EMPATHY'', PyFloat (Finite 3))]"
  let ?fs = "[''Empathy'', ''Logic'']"
  have h1: "?d = [(''Logic'', PyInt 2)] @ (''Empathy'', PyNone) # [(''EMPATHY'', PyFloat (Finite 3))]"
    by simp
  have h2: "list_all (\<lambda>kv. ascii_strip_lower (fst kv) \<noteq> ascii_strip_lower ''Empathy'')
              [(''Logic'', PyInt 2)]" by code_simp
  have h3: "''Empathy'' \<in> set ?fs" by simp
  note t = validate_input_none_value[of ?d ascii_strip_lower ?fs,
      THEN conjunct1, rule_format, OF conjI[OF h1 conjI[OF h2 h3]]]
  have a: "validate_input ascii_strip_lower ?fs (Dict ?d)
           = Inr ([PyFloat (Finite (1/2)), PyInt 2], [''Empathy''])"
    by code_simp
  from t[THEN conjunct1] t[THEN conjunct2, THEN conjunct1] a show ?thesis
    by (intro conjI)
qed

text \<open>
  Claim C10 as stated fails: with \<open>{"EMPATHY": 3, "Empathy": None}\<close> the feature
  \<open>Empathy\<close> has the value \<open>None\<close> under its exactly matching key, and yet it is neither
  defaulted nor reported missing: the scan finds the earlier key first.
\<close>

theorem validate_input_none_value_counterexample:
  "map_of [(''EMPATHY'', PyInt 3), (''Empathy'', PyNone)] ''Empathy'' = Some PyNone
   \<and> validate_input ascii_strip_lower [''Empathy'']
         (Dict [(''EMPATHY'', PyInt 3), (''Empathy'', PyNone)])
       = Inr ([PyInt 3], [])"
  by code_simp

section \<open>Lemmas about rounding and floating-point numbers\<close>

lemma py_round_floor:
  "py_round x = \<lfloor>x\<rfloor> \<and> x \<le> of_int \<lfloor>x\<rfloor> + 1/2
   \<or> py_round x = \<lfloor>x\<rfloor> + 1 \<and> of_int \<lfloor>x\<rfloor> + 1/2 \<le> x"
  unfolding py_round_def Let_def by (simp add: algebra_simps)

lemma py_round_le_int:
  assumes "x \<le> of_int m"
  shows "py_round x \<le> m"
proof -
  have f1: "\<lfloor>x\<rfloor> \<le> m" using assms by (simp add: floor_le_iff)
  have f2: "of_int \<lfloor>x\<rfloor> + 1/2 \<le> x \<Longrightarrow> \<lfloor>x\<rfloor> + 1 \<le> m"
  proof -
    assume "of_int \<lfloor>x\<rfloor> + 1/2 \<le> x"
    with assms have "(of_int \<lfloor>x\<rfloor> :: rat) < of_int m" by linarith
    then have "\<lfloor>x\<rfloor> < m" by linarith
    then show ?thesis by simp
  qed
  from py_round_floor[of x] f1 f2 show ?thesis by auto
qed

lemma py_round_nonneg:
  assumes "0 \<le> x"
  shows "0 \<le> py_round x"
proof -
  have "0 \<le> \<lfloor>x\<rfloor>" using assms by simp
  with py_round_floor[of x] show ?thesis by auto
qed

lemma py_round_bounds:
  assumes "0 \<le> x" "x \<le> 100"
  shows "0 \<le> py_round x \<and> py_round x \<le> 100"
  using py_round_nonneg[OF assms(1)] py_round_le_int[of x 100] assms(2) by simp

lemma py_round_nearest: "\<bar>of_int (py_round x) - x\<bar> \<le> 1/2"
  using py_round_floor[of x] of_int_floor_le[of x] floor_correct[of x]
  by (auto simp: abs_le_iff)

lemma bitlen_powi:
  assumes "0 < p"
  shows "(2::rat) powi (bitlen p - 1) \<le> of_int p \<and> of_int p < (2::rat) powi (bitlen p)"
proof -
  from bitlen_bounds[OF assms]
  have b: "2 ^ nat (bitlen p - 1) \<le> p" "p < 2 ^ nat (bitlen p)" by simp_all
  have ge: "1 \<le> bitlen p"
    using assms bitlen_eq_zero_iff[of p] bitlen_nonneg[of p] by linarith
  have "(of_int (2 ^ nat (bitlen p - 1)) :: rat) \<le> of_int p"
    using b(1) by (simp only: of_int_le_iff)
  then have l: "(2::rat) powi (bitlen p - 1) \<le> of_int p"
    using ge by (simp add: power_int_def)
  have "(of_int p :: rat) < of_int (2 ^ nat (bitlen p))"
    using b(2) by (simp only: of_int_less_iff)
  then have u: "of_int p < (2::rat) powi (bitlen p)"
    using ge by (simp add: power_int_def)
  from l u show ?thesis ..
qed

lemma exponent_of_bounds:
  assumes "0 < a"
  shows "2 powi (exponent_of a) \<le> a \<and> a < 2 powi (exponent_of a + 1)"
proof -
  obtain p q where pq: "quotient_of a = (p, q)" by (cases "quotient_of a")
  have q: "0 < q" using quotient_of_denom_pos[OF pq] .
  have a: "a = of_int p / of_int q" using quotient_of_div[OF pq] .
  have p: "0 < p"
    using assms q unfolding a by (simp add: zero_less_divide_iff)
  let ?P = "of_int p :: rat" and ?Q = "of_int q :: rat"
  let ?k = "bitlen p - bitlen q"
  note bp = bitlen_powi[OF p] and bq = bitlen_powi[OF q]
  have Q: "0 < ?Q" using q by simp
  have low: "2 powi (?k - 1) \<le> a"
  proof -
    have "(2::rat) powi (?k - 1) = 2 powi (bitlen p - 1) / 2 powi (bitlen q)"
      by (simp add: power_int_diff)
    also have "\<dots> \<le> ?P / 2 powi (bitlen q)"
      using bp by (simp add: divide_right_mono)
    also have "\<dots> \<le> ?P / ?Q"
    proof (rule divide_left_mono)
      show "?Q \<le> 2 powi (bitlen q)" using bq by simp
      show "0 \<le> ?P" using p by simp
      show "0 < 2 powi (bitlen q) * ?Q" using Q by (intro mult_pos_pos) simp_all
    qed
    finally show ?thesis unfolding a .
  qed
  have up: "a < 2 powi (?k + 1)"
  proof -
    have pos: "(0::rat) < 2 powi (bitlen q - 1)" by simp
    have "a = ?P / ?Q" by (rule a)
    also have "\<dots> \<le> ?P / 2 powi (bitlen q - 1)"
    proof (rule divide_left_mono)
      show "2 powi (bitlen q - 1) \<le> ?Q" using bq by simp
      show "0 \<le> ?P" using p by simp
      show "0 < ?Q * 2 powi (bitlen q - 1)" using Q pos by (rule mult_pos_pos)
    qed
    also have "\<dots> < 2 powi (bitlen p) / 2 powi (bitlen q - 1)"
      using bp pos by (simp add: divide_strict_right_mono)
    also have "\<dots> = 2 powi (?k + 1)"
      by (simp add: power_int_diff power_int_add algebra_simps)
    finally show ?thesis .
  qed
  show ?thesis
  proof (cases "2 powi ?k \<le> a")
    case True
    then have "exponent_of a = ?k" by (simp add: exponent_of_def pq)
    with True up show ?thesis by simp
  next
    case False
    then have "exponent_of a = ?k - 1" by (simp add: exponent_of_def pq)
    with False low show ?thesis by simp
  qed
qed

lemma exponent_of_less:
  assumes "0 < a" "a < 2 powi k"
  shows "exponent_of a < k"
proof (rule ccontr)
  assume "\<not> exponent_of a < k"
  then have "k \<le> exponent_of a" by simp
  then have "(2::rat) powi k \<le> 2 powi (exponent_of a)"
    by (intro power_int_increasing) simp_all
  with exponent_of_bounds[OF assms(1)] assms(2) show False by simp
qed

lemma exponent_of_zero: "exponent_of 0 = - 2"
  by code_simp

text \<open>
  What \<open>nearest_double\<close> returns is a multiple of the spacing at the exponent of the
  exact value, with a significand of at most 53 bits, and within half that spacing of
  the exact value.
\<close>

lemma nearest_double_nearest:
  assumes "nearest_double x = Finite y"
  shows "\<exists>n. \<bar>y\<bar> = of_int n * 2 powi (max (exponent_of \<bar>x\<bar>) (- 1022) - 52)
           \<and> 0 \<le> n \<and> n \<le> 2 ^ 53
           \<and> \<bar>\<bar>y\<bar> - \<bar>x\<bar>\<bar> \<le> 2 powi (max (exponent_of \<bar>x\<bar>) (- 1022) - 53)"
proof (cases "x = 0")
  case True
  with assms have "y = 0" by (simp add: nearest_double_def)
  with True show ?thesis by (intro exI[of _ 0]) simp
next
  case False
  define a where "a = \<bar>x\<bar>"
  define e where "e = max (exponent_of a) (- 1022)"
  define ulp where "ulp = (2::rat) powi (e - 52)"
  define n where "n = py_round (a / ulp)"
  define r where "r = of_int n * ulp"
  have a: "0 < a" using False by (simp add: a_def)
  have ulp: "0 < ulp" by (simp add: ulp_def)
  have n0: "0 \<le> n" unfolding n_def using a ulp by (intro py_round_nonneg) simp
  have r0: "0 \<le> r" using n0 ulp by (simp add: r_def)
  from assms False have "y = (if 0 < x then r else - r)"
    by (simp add: nearest_double_def Let_def a_def e_def ulp_def n_def r_def
        split: if_splits)
  with r0 have y: "\<bar>y\<bar> = r" by simp
  have "a < 2 powi (exponent_of a + 1)" using exponent_of_bounds[OF a] by simp
  also have "\<dots> \<le> 2 powi (e + 1)"
    by (intro power_int_increasing) (simp_all add: e_def)
  finally have "a / ulp < 2 powi (e + 1) / ulp"
    using ulp by (simp add: divide_strict_right_mono)
  also have "2 powi (e + 1) / ulp = 2 powi 53"
    by (simp add: ulp_def flip: power_int_diff)
  also have "(2::rat) powi 53 = of_int (2 ^ 53)" by (simp add: power_int_def)
  finally have "a / ulp \<le> of_int (2 ^ 53)" by simp
  then have n53: "n \<le> 2 ^ 53" unfolding n_def by (rule py_round_le_int)
  have "r - a = (of_int n - a / ulp) * ulp"
    using ulp by (simp add: r_def field_simps)
  then have "\<bar>r - a\<bar> = \<bar>of_int n - a / ulp\<bar> * ulp"
    using ulp by (simp add: abs_mult)
  also have "\<dots> \<le> 1/2 * ulp"
    using py_round_nearest[of "a / ulp"] ulp unfolding n_def
    by (intro mult_right_mono) simp_all
  also have "1/2 * ulp = 2 powi (e - 53)"
    by (simp add: ulp_def power_int_diff)
  finally have err: "\<bar>r - a\<bar> \<le> 2 powi (e - 53)" .
  show ?thesis
    using y n0 n53 err unfolding r_def ulp_def e_def a_def
    by (intro exI[of _ n]) simp
qed

lemma nearest_double_percent:
  assumes "0 < x" "x \<le> 100"
  shows "\<exists>y. nearest_double x = Finite y \<and> 0 \<le> y \<and> y \<le> 100"
proof -
  define e where "e = max (exponent_of x) (- 1022)"
  define ulp where "ulp = (2::rat) powi (e - 52)"
  define r where "r = of_int (py_round (x / ulp)) * ulp"
  have nd: "nearest_double x = (if 1024 \<le> exponent_of r then PosInf else Finite r)"
    using assms(1) by (simp add: nearest_double_def Let_def e_def ulp_def r_def)
  have p7: "(2::rat) powi 7 = 128" by (simp add: power_int_def)
  have "exponent_of x < 7"
    by (rule exponent_of_less) (use assms p7 in simp_all)
  then have e: "e \<le> 6" by (simp add: e_def)
  have ulp_pos: "0 < ulp" by (simp add: ulp_def)
  define m where "m = 100 * (2::int) ^ nat (52 - e)"
  have inv: "1 / ulp = 2 powi (52 - e)"
    by (simp add: ulp_def power_int_diff)
  also have "\<dots> = 2 ^ nat (52 - e)" using e by (simp add: power_int_def)
  finally have inv': "1 / ulp = 2 ^ nat (52 - e)" .
  have hm: "100 / ulp = of_int m"
    using inv' by (simp add: m_def divide_inverse)
  have "x / ulp \<le> 100 / ulp"
    using assms(2) ulp_pos by (simp add: divide_right_mono)
  then have "x / ulp \<le> of_int m" by (simp only: hm)
  then have n_le: "py_round (x / ulp) \<le> m" by (rule py_round_le_int)
  have "0 \<le> x / ulp" using assms(1) ulp_pos by simp
  then have n_ge: "0 \<le> py_round (x / ulp)" by (rule py_round_nonneg)
  have r0: "0 \<le> r" using n_ge ulp_pos by (simp add: r_def)
  have "r \<le> of_int m * ulp"
    unfolding r_def using n_le ulp_pos by (simp add: mult_right_mono)
  also have "of_int m * ulp = 100"
    using hm ulp_pos by (simp add: field_simps)
  finally have r100: "r \<le> 100" .
  have ex: "exponent_of r < 1024"
  proof (cases "r = 0")
    case True
    then show ?thesis by (simp add: exponent_of_zero)
  next
    case False
    with r0 have "0 < r" by simp
    moreover have "r < 2 powi 7" using r100 p7 by simp
    ultimately have "exponent_of r < 7" by (rule exponent_of_less)
    then show ?thesis by simp
  qed
  from nd ex r0 r100 show ?thesis by simp
qed

lemma in_unit_interval_cases:
  "in_unit_interval p \<longleftrightarrow> p = NegZero \<or> (\<exists>x. p = Finite x \<and> 0 \<le> x \<and> x \<le> 1)"
  by (cases p) (simp_all add: in_unit_interval_def float_le_def)

lemma round_percent_unit:
  assumes "in_unit_interval p"
  shows "\<exists>n. round_percent p = Inr n \<and> 0 \<le> n \<and> n \<le> 100"
proof -
  from assms consider "p = NegZero" | x where "p = Finite x" "0 \<le> x" "x \<le> 1"
    unfolding in_unit_interval_cases by blast
  then show ?thesis
  proof cases
    case 1
    then show ?thesis by (simp add: round_percent_def float_mul_def)
  next
    case 2
    show ?thesis
    proof (cases "x = 0")
      case True
      with 2 py_round_bounds[of 0] show ?thesis
        by (simp add: round_percent_def float_mul_def)
    next
      case False
      with 2 have "0 < x * 100" "x * 100 \<le> 100" by simp_all
      from nearest_double_percent[OF this] obtain y
        where y: "nearest_double (x * 100) = Finite y" "0 \<le> y" "y \<le> 100" by blast
      from py_round_bounds[OF y(2,3)] y(1) False 2(1) show ?thesis
        by (simp add: round_percent_def float_mul_def)
    qed
  qed
qed

lemma has_percentage_unit: "in_unit_interval p \<Longrightarrow> has_percentage p"
  using round_percent_unit[of p] by (auto simp: has_percentage_def)

lemma percentage_unit:
  "in_unit_interval p \<Longrightarrow>
   round_percent p = Inr (percentage p) \<and> 0 \<le> percentage p \<and> percentage p \<le> 100"
  using round_percent_unit[of p] by (auto simp: percentage_def)

lemma has_percentage_iff:
  "has_percentage p \<longleftrightarrow>
     p = NegZero \<or> (\<exists>x. p = Finite x \<and> (x = 0 \<or> (\<exists>y. nearest_double (x * 100) = Finite y)
                                          \<or> nearest_double (x * 100) = NegZero))"
  by (cases p; cases "nearest_double (finite_value p * 100)")
     (simp_all add: has_percentage_def round_percent_def float_mul_def)

section \<open>Lemmas about argmax, sorting and the prediction pipeline\<close>

lemma float_le_not_nan: "float_le a b \<Longrightarrow> \<not> is_nan a \<and> \<not> is_nan b"
  by (simp add: float_le_def)

lemma float_le_refl: "\<not> is_nan a \<Longrightarrow> float_le a a"
  by (cases a) (simp_all add: float_le_def)

lemma float_le_trans: "float_le a b \<Longrightarrow> float_le b c \<Longrightarrow> float_le a c"
  by (cases a; cases b; cases c) (simp_all add: float_le_def)

lemma float_le_total: "\<not> is_nan a \<Longrightarrow> \<not> is_nan b \<Longrightarrow> float_le a b \<or> float_le b a"
  by (cases a; cases b) (auto simp: float_le_def)

lemma argmax_loop_spec:
  assumes "best < length pre" "mp = pre ! best"
      and "(is_nan mp \<and> (\<forall>j<best. \<not> is_nan (pre ! j)))
           \<or> ((\<forall>j<length pre. float_le (pre ! j) mp) \<and> (\<forall>j<best. float_lt (pre ! j) mp))"
  shows "argmax_loop xs (length pre) best mp < length (pre @ xs)
       \<and> ((is_nan ((pre @ xs) ! argmax_loop xs (length pre) best mp)
            \<and> (\<forall>j<argmax_loop xs (length pre) best mp. \<not> is_nan ((pre @ xs) ! j)))
          \<or> ((\<forall>j<length (pre @ xs).
                 float_le ((pre @ xs) ! j) ((pre @ xs) ! argmax_loop xs (length pre) best mp))
              \<and> (\<forall>j<argmax_loop xs (length pre) best mp.
                 float_lt ((pre @ xs) ! j) ((pre @ xs) ! argmax_loop xs (length pre) best mp))))"
  using assms
proof (induction xs arbitrary: pre best mp)
  case Nil
  then show ?case by simp
next
  case (Cons x xs)
  show ?case
  proof (cases "is_nan mp")
    case True
    have "\<not> float_le (pre ! best) mp" using True by (simp add: float_le_def)
    with Cons.prems have "\<forall>j<best. \<not> is_nan (pre ! j)" by auto
    with True Cons.prems(1,2) show ?thesis by (auto simp: nth_append)
  next
    case False
    with Cons.prems(3) have inv: "\<forall>j<length pre. float_le (pre ! j) mp"
      "\<forall>j<best. float_lt (pre ! j) mp" by auto
    show ?thesis
    proof (cases "float_le x mp")
      case le: True
      have a: "best < length (pre @ [x])" using Cons.prems(1) by simp
      have b: "mp = (pre @ [x]) ! best" using Cons.prems(1,2) by (simp add: nth_append)
      have c: "(is_nan mp \<and> (\<forall>j<best. \<not> is_nan ((pre @ [x]) ! j)))
           \<or> ((\<forall>j<length (pre @ [x]). float_le ((pre @ [x]) ! j) mp)
               \<and> (\<forall>j<best. float_lt ((pre @ [x]) ! j) mp))"
        using inv le Cons.prems(1) by (auto simp: nth_append less_Suc_eq)
      from Cons.IH[OF a b c] False le show ?thesis by simp
    next
      case nle: False
      have a: "length pre < length (pre @ [x])" by simp
      have b: "x = (pre @ [x]) ! length pre" by simp
      have c: "(is_nan x \<and> (\<forall>j<length pre. \<not> is_nan ((pre @ [x]) ! j)))
           \<or> ((\<forall>j<length (pre @ [x]). float_le ((pre @ [x]) ! j) x)
               \<and> (\<forall>j<length pre. float_lt ((pre @ [x]) ! j) x))"
      proof (cases "is_nan x")
        case True
        with inv(1) show ?thesis by (auto simp: nth_append dest: float_le_not_nan)
      next
        case xn: False
        from float_le_total[OF xn False] nle have mx: "float_le mp x" by simp
        have "float_le (pre ! j) x \<and> float_lt (pre ! j) x" if "j < length pre" for j
        proof -
          from inv(1) that have jm: "float_le (pre ! j) mp" by simp
          from float_le_trans[OF jm mx] have 1: "float_le (pre ! j) x" .
          have "\<not> float_le x (pre ! j)"
          proof
            assume "float_le x (pre ! j)"
            from float_le_trans[OF this jm] nle show False by simp
          qed
          with 1 show ?thesis by (simp add: float_lt_def)
        qed
        with xn float_le_refl[OF xn] show ?thesis
          by (auto simp: nth_append less_Suc_eq)
      qed
      from Cons.IH[OF a b c] False nle show ?thesis by simp
    qed
  qed
qed

lemma np_argmax_first_max:
  assumes "np_argmax xs = Inr i"
  shows "i < length xs
       \<and> ((is_nan (xs ! i) \<and> (\<forall>j<i. \<not> is_nan (xs ! j)))
          \<or> ((\<forall>j<length xs. float_le (xs ! j) (xs ! i)) \<and> (\<forall>j<i. float_lt (xs ! j) (xs ! i))))"
proof (cases xs)
  case Nil
  with assms show ?thesis by (simp add: np_argmax_def)
next
  case (Cons x rest)
  with assms have i: "i = argmax_loop rest (length [x]) 0 x" by (simp add: np_argmax_def)
  have c: "(is_nan x \<and> (\<forall>j<0. \<not> is_nan ([x] ! j)))
           \<or> ((\<forall>j<length [x]. float_le ([x] ! j) x) \<and> (\<forall>j<0. float_lt ([x] ! j) x))"
    using float_le_refl[of x] by auto
  have "argmax_loop rest (length [x]) 0 x < length ([x] @ rest)
       \<and> ((is_nan (([x] @ rest) ! argmax_loop rest (length [x]) 0 x)
            \<and> (\<forall>j<argmax_loop rest (length [x]) 0 x. \<not> is_nan (([x] @ rest) ! j)))
          \<or> ((\<forall>j<length ([x] @ rest).
                 float_le (([x] @ rest) ! j) (([x] @ rest) ! argmax_loop rest (length [x]) 0 x))
              \<and> (\<forall>j<argmax_loop rest (length [x]) 0 x.
                 float_lt (([x] @ rest) ! j) (([x] @ rest) ! argmax_loop rest (length [x]) 0 x))))"
    by (rule argmax_loop_spec[OF _ _ c]) simp_all
  then show ?thesis unfolding i Cons by simp
qed

lemma np_argmax_nonempty: "xs \<noteq> [] \<Longrightarrow> \<exists>i. np_argmax xs = Inr i"
  by (cases xs) (simp_all add: np_argmax_def)

lemma sorted_reverse_mset: "mset (sorted_reverse key xs) = mset xs"
  by (simp add: sorted_reverse_def)

lemma sorted_reverse_length: "length (sorted_reverse key xs) = length xs"
  by (simp add: sorted_reverse_def)

lemma sorted_reverse_set: "set (sorted_reverse key xs) = set xs"
  by (simp add: sorted_reverse_def)

lemma sorted_reverse_descending:
  "sorted_wrt (\<lambda>a b. key b \<le> key a) (sorted_reverse key xs)"
proof -
  have "sorted (map key (sort_key key (rev xs)))" by (rule sorted_sort_key)
  then have "sorted_wrt (\<lambda>a b. key a \<le> key b) (sort_key key (rev xs))"
    by (simp add: sorted_map)
  then show ?thesis
    by (simp add: sorted_reverse_def sorted_wrt_rev)
qed

lemma sorted_reverse_stable:
  "filter (\<lambda>x. key x = k) (sorted_reverse key xs) = filter (\<lambda>x. key x = k) xs"
proof -
  have "filter (\<lambda>x. key x = k) (sorted_reverse key xs)
        = rev (filter (\<lambda>x. key x = k) (sort_key key (rev xs)))"
    by (simp add: sorted_reverse_def rev_filter)
  also have "\<dots> = rev (filter (\<lambda>x. key x = k) (rev xs))"
    by (simp only: sort_key_stable)
  also have "\<dots> = filter (\<lambda>x. key x = k) xs"
    by (simp add: rev_filter)
  finally show ?thesis .
qed

lemma validate_input_exn:
  "validate_input sl fs u = Inl e \<Longrightarrow> is_value_or_type_error e"
proof (cases u)
  case NotADict
  assume "validate_input sl fs u = Inl e"
  with NotADict show ?thesis by (auto simp: validate_input_def)
next
  case (Dict d)
  assume "validate_input sl fs u = Inl e"
  with Dict validate_input_Inl[of sl fs d e] show ?thesis by auto
qed

lemma uyum_loop_defined:
  "list_all (\<lambda>cp. has_percentage (snd cp)) ps \<Longrightarrow>
   uyum_loop ps = Inr (map (\<lambda>cp. \<lparr>meslek = fst cp, uyum = percentage (snd cp)\<rparr>) ps)"
  by (induction ps)
     (auto simp: has_percentage_def percentage_def split: sum.splits)

lemma uyum_loop_raises:
  "\<not> list_all (\<lambda>cp. has_percentage (snd cp)) ps \<Longrightarrow>
   \<exists>cp \<in> set ps. \<exists>e. round_percent (snd cp) = Inl e \<and> uyum_loop ps = Inl e"
proof (induction ps)
  case Nil
  then show ?case by simp
next
  case (Cons cp ps)
  obtain c p where cp: "cp = (c, p)" by (cases cp)
  show ?case
  proof (cases "round_percent p")
    case (Inl e)
    then show ?thesis by (simp add: cp)
  next
    case (Inr n)
    with Cons.prems have "\<not> list_all (\<lambda>cp. has_percentage (snd cp)) ps"
      by (simp add: cp has_percentage_def)
    from Cons.IH[OF this] obtain cq e
      where "cq \<in> set ps" "round_percent (snd cq) = Inl e" "uyum_loop ps = Inl e" by blast
    with Inr show ?thesis by (auto simp: cp)
  qed
qed

lemma uyum_list_Inr:
  "uyum_list cs probs = Inr us \<longleftrightarrow>
     percentages_defined cs probs
     \<and> us = map2 (\<lambda>c p. \<lparr>meslek = c, uyum = percentage p\<rparr>) cs probs"
proof (cases "percentages_defined cs probs")
  case True
  have "map (\<lambda>cp. \<lparr>meslek = fst cp, uyum = percentage (snd cp)\<rparr>) (zip cs probs)
        = map2 (\<lambda>c p. \<lparr>meslek = c, uyum = percentage p\<rparr>) cs probs"
    by (rule map_cong) auto
  with True uyum_loop_defined[of "zip cs probs"] show ?thesis
    by (auto simp: uyum_list_def percentages_defined_def)
next
  case False
  with uyum_loop_raises[of "zip cs probs"] show ?thesis
    by (auto simp: uyum_list_def percentages_defined_def)
qed

lemma uyum_list_Inl:
  "(\<exists>e. uyum_list cs probs = Inl e) \<longleftrightarrow> \<not> percentages_defined cs probs"
  using uyum_list_Inr[of cs probs] by (cases "uyum_list cs probs") auto

lemma predict_and_analyze_cases:
  "predict_and_analyze sl self user_scores =
     (case validate_input sl (feature_names self) user_scores of
        Inl e \<Rightarrow> Inr (ErrorPayload (exn_str e))
      | Inr (v, m) \<Rightarrow>
          (case scaler_transform self v of
             Inl e \<Rightarrow> Inr (ErrorPayload (''Model prediction error: '' @ exn_str e))
           | Inr s \<Rightarrow>
              (case predict_proba self s of
                 Inl e \<Rightarrow> Inr (ErrorPayload (''Model prediction error: '' @ exn_str e))
               | Inr probs \<Rightarrow>
                  (case uyum_list (classes self) probs of
                     Inl e \<Rightarrow> Inl e
                   | Inr pairs \<Rightarrow>
                      (case winner_and_comparison sl self (dict_items user_scores) probs of
                         Inl e \<Rightarrow>
                           Inr (ErrorPayload (''Error building comparison: '' @ exn_str e))
                       | Inr (k, y) \<Rightarrow>
                           Inr (PredictionResult (sorted_reverse uyum pairs) k y))))))"
  by (auto simp: predict_and_analyze_def validate_input_exn split: sum.splits prod.splits)

lemma winner_and_comparison_Inr:
  "winner_and_comparison sl self d probs = Inr (k, y) \<longleftrightarrow>
     (\<exists>i avgs. np_argmax probs = Inr i \<and> i < length (classes self) \<and> k = classes self ! i
        \<and> map_of (grup_ortalamalari self) k = Some avgs
        \<and> y = map (comparison_row sl d avgs) (feature_names self))"
  by (auto simp: winner_and_comparison_def Let_def split: sum.splits option.splits)

lemma winner_and_comparison_success:
  "(\<exists>r. winner_and_comparison sl self d probs = Inr r) \<longleftrightarrow>
     (\<exists>i. np_argmax probs = Inr i \<and> i < length (classes self)
        \<and> map_of (grup_ortalamalari self) (classes self ! i) \<noteq> None)"
  by (auto simp: winner_and_comparison_def Let_def split: sum.splits option.splits)

lemma predict_and_analyze_success:
  assumes "validate_input sl (feature_names self) user_scores = Inr (v, m)"
      and "scaler_transform self v = Inr s"
      and "predict_proba self s = Inr probabilities"
      and "predict_and_analyze sl self user_scores = Inr (PredictionResult u k y)"
  shows "percentages_defined (classes self) probabilities
       \<and> u = sorted_reverse uyum
               (map2 (\<lambda>c p. \<lparr>meslek = c, uyum = percentage p\<rparr>) (classes self) probabilities)
       \<and> winner_and_comparison sl self (dict_items user_scores) probabilities = Inr (k, y)"
proof (cases "uyum_list (classes self) probabilities")
  case (Inl e)
  with assms show ?thesis by (simp add: predict_and_analyze_cases)
next
  case (Inr pairs)
  with assms have "u = sorted_reverse uyum pairs"
    "winner_and_comparison sl self (dict_items user_scores) probabilities = Inr (k, y)"
    by (auto simp: predict_and_analyze_cases split: sum.splits prod.splits)
  with Inr[unfolded uyum_list_Inr] show ?thesis by simp
qed

lemma py_float_convertible: "convertible v \<Longrightarrow> py_float v = Inr (float_value v)"
  by (cases v) simp_all

lemma convertible_scores_map_of:
  "convertible_scores d \<Longrightarrow> map_of d k = Some v \<Longrightarrow> convertible v"
  unfolding convertible_scores_def
  by (induction d) (auto split: if_splits)

lemma comparison_row_convertible:
  assumes "convertible (score_or_default (resolve_score sl d f))"
      and "convertible_scores avgs"
  shows "comparison_row sl d avgs f =
           \<lparr>yetkinlik = f,
            kullanici_skoru = round1_float (float_value (score_or_default (resolve_score sl d f))),
            grup_ortalamasi = round1_float (group_average avgs f),
            fark = round1_float
                     (float_sub (float_value (score_or_default (resolve_score sl d f)))
                                (group_average avgs f))\<rparr>"
proof -
  have g: "py_float (case map_of avgs f of None \<Rightarrow> default_score | Some v \<Rightarrow> v)
           = Inr (group_average avgs f)"
  proof (cases "map_of avgs f")
    case None
    then show ?thesis by (simp add: group_average_def default_score_def)
  next
    case (Some w)
    from py_float_convertible[OF convertible_scores_map_of[OF assms(2) Some]] Some
    show ?thesis by (simp add: group_average_def)
  qed
  have "(case resolve_score sl d f of PyNone \<Rightarrow> default_score | v \<Rightarrow> v)
         = score_or_default (resolve_score sl d f)"
    by (cases "resolve_score sl d f") (simp_all add: score_or_default_def)
  then have u: "py_float (case resolve_score sl d f of PyNone \<Rightarrow> default_score | v \<Rightarrow> v)
           = Inr (float_value (score_or_default (resolve_score sl d f)))"
    using py_float_convertible[OF assms(1)] by simp
  show ?thesis
    unfolding comparison_row_def Let_def g u by simp
qed

lemma comparison_row_yetkinlik: "yetkinlik (comparison_row sl d avgs f) = f"
  by (simp add: comparison_row_def Let_def split: sum.splits prod.splits)

lemma has_percentage_not_nan: "has_percentage p \<Longrightarrow> \<not> is_nan p"
  by (cases p) (simp_all add: has_percentage_def round_percent_def float_mul_def)

lemma percentages_defined_nth:
  assumes "percentages_defined cs probs" "i < length cs" "i < length probs"
  shows "has_percentage (probs ! i)"
proof -
  have "zip cs probs ! i \<in> set (zip cs probs)" using assms(2,3) by (intro nth_mem) simp
  with assms show ?thesis by (auto simp: percentages_defined_def list_all_iff)
qed

lemma percentages_defined_unit:
  assumes "\<forall>p \<in> set probs. in_unit_interval p"
  shows "percentages_defined cs probs"
  unfolding percentages_defined_def list_all_iff
proof
  fix cp assume cp: "cp \<in> set (zip cs probs)"
  obtain c p where "cp = (c, p)" by (cases cp)
  with cp have "snd cp \<in> set probs" by (auto dest: set_zip_rightD)
  with assms show "has_percentage (snd cp)" by (simp add: has_percentage_unit)
qed

text \<open>
  The comprehension of lines 121-124 is not protected: when the classifier has answered
  and a probability paired with a class has no percentage (it is NaN or infinite, or
  its product with 100 is), the exception of \<open>round\<close> leaves \<open>predict_and_analyze\<close>.
\<close>

lemma unprotected_round_raises:
  assumes "validate_input sl (feature_names self) user_scores = Inr (v, m)"
      and "scaler_transform self v = Inr s"
      and "predict_proba self s = Inr probs"
      and "\<not> percentages_defined (classes self) probs"
  shows "\<exists>e. predict_and_analyze sl self user_scores = Inl e"
  using assms uyum_list_Inl[of "classes self" probs]
  by (auto simp: predict_and_analyze_cases)


section \<open>Claims about the prediction entry point\<close>

text \<open>
  Claim C3, as amended. \<open>predict_and_analyze\<close> returns a dictionary, and does not
  raise, for every service and every input for which \<open>round(prob * 100)\<close> is defined for
  each probability the classifier pairs with a class, as it is for every probability in
  [0, 1]. An input that is not a dict gives the error dictionary with the message of the
  \<open>TypeError\<close>; a resolved score that is neither \<open>None\<close> nor numeric gives the error
  dictionary with the message of the \<open>ValueError\<close> for such a feature; an exception of
  the scaler or of the classifier gives the error dictionary "Model prediction
  error: ...". Otherwise the result is the successful prediction result exactly when
  the classifier returned at least one probability, the first position of the largest
  one is a class of the label encoder and that class has a row in the group-average
  table; if not, it is the error dictionary "Error building comparison: ...". An error
  dictionary has the single key \<open>error\<close>, holding the message; there is no separate
  machine-readable kind.
\<close>

theorem predict_and_analyze_never_raises:
  "((\<forall>v m s probs. validate_input strip_lower (feature_names self) user_scores = Inr (v, m)
            \<and> scaler_transform self v = Inr s \<and> predict_proba self s = Inr probs \<longrightarrow>
            percentages_defined (classes self) probs) \<longrightarrow>
      (\<exists>p. predict_and_analyze strip_lower self user_scores = Inr p))
   \<and> (user_scores = NotADict \<longrightarrow>
        predict_and_analyze strip_lower self user_scores
          = Inr (ErrorPayload ''Input must be in 'dict' format.''))
   \<and> (\<forall>d. user_scores = Dict d
            \<and> (\<exists>f \<in> set (feature_names self). is_other (resolve_score strip_lower d f)) \<longrightarrow>
        (\<exists>g \<in> set (feature_names self). is_other (resolve_score strip_lower d g)
            \<and> predict_and_analyze strip_lower self user_scores
                = Inr (ErrorPayload (numeric_message g))))
   \<and> (\<forall>v m e. validate_input strip_lower (feature_names self) user_scores = Inr (v, m)
            \<and> scaler_transform self v = Inl e \<longrightarrow>
        predict_and_analyze strip_lower self user_scores
          = Inr (ErrorPayload (''Model prediction error: '' @ exn_str e)))
   \<and> (\<forall>v m s e. validate_input strip_lower (feature_names self) user_scores = Inr (v, m)
            \<and> scaler_transform self v = Inr s \<and> predict_proba self s = Inl e \<longrightarrow>
        predict_and_analyze strip_lower self user_scores
          = Inr (ErrorPayload (''Model prediction error: '' @ exn_str e)))
   \<and> (\<forall>v m s probs. validate_input strip_lower (feature_names self) user_scores = Inr (v, m)
            \<and> scaler_transform self v = Inr s \<and> predict_proba self s = Inr probs
            \<and> percentages_defined (classes self) probs \<longrightarrow>
        (if \<exists>i. np_argmax probs = Inr i \<and> i < length (classes self)
                 \<and> map_of (grup_ortalamalari self) (classes self ! i) \<noteq> None
         then \<exists>u k y. predict_and_analyze strip_lower self user_scores
                        = Inr (PredictionResult u k y)
         else \<exists>msg. predict_and_analyze strip_lower self user_scores
                      = Inr (ErrorPayload (''Error building comparison: '' @ msg))))
   \<and> (\<forall>probs. (\<forall>p \<in> set probs. in_unit_interval p) \<longrightarrow>
        percentages_defined (classes self) probs)
   \<and> (\<forall>msg. payload_keys (ErrorPayload msg) = [''error''])"
proof -
  let ?res = "predict_and_analyze strip_lower self user_scores"
  let ?val = "validate_input strip_lower (feature_names self) user_scores"
  have A: "(\<forall>v m s probs. ?val = Inr (v, m)
            \<and> scaler_transform self v = Inr s \<and> predict_proba self s = Inr probs \<longrightarrow>
            percentages_defined (classes self) probs) \<longrightarrow> (\<exists>p. ?res = Inr p)"
  proof
    assume h: "\<forall>v m s probs. ?val = Inr (v, m)
            \<and> scaler_transform self v = Inr s \<and> predict_proba self s = Inr probs \<longrightarrow>
            percentages_defined (classes self) probs"
    show "\<exists>p. ?res = Inr p"
    proof (cases ?val)
      case (Inl e)
      then show ?thesis by (simp add: predict_and_analyze_cases)
    next
      case (Inr r)
      obtain v m where r: "r = (v, m)" by (cases r)
      show ?thesis
      proof (cases "scaler_transform self v")
        case Inl
        with Inr r show ?thesis by (simp add: predict_and_analyze_cases)
      next
        case s: (Inr s)
        show ?thesis
        proof (cases "predict_proba self s")
          case Inl
          with Inr r s show ?thesis by (simp add: predict_and_analyze_cases)
        next
          case p: (Inr probs)
          from h Inr r s p have "percentages_defined (classes self) probs" by blast
          then obtain pairs where "uyum_list (classes self) probs = Inr pairs"
            by (simp add: uyum_list_Inr)
          with Inr r s p show ?thesis
            by (simp add: predict_and_analyze_cases split: sum.splits prod.splits)
        qed
      qed
    qed
  qed
  have B: "user_scores = NotADict \<longrightarrow>
        ?res = Inr (ErrorPayload ''Input must be in 'dict' format.'')"
    by (simp add: predict_and_analyze_cases validate_input_def)
  have C: "\<exists>g \<in> set (feature_names self). is_other (resolve_score strip_lower d g)
            \<and> ?res = Inr (ErrorPayload (numeric_message g))"
    if "user_scores = Dict d"
      and "\<not> list_all (\<lambda>f. \<not> is_other (resolve_score strip_lower d f)) (feature_names self)"
    for d
    using validate_loop_raises[OF that(2), of "[]" "[]"] that(1)
    by (auto simp: predict_and_analyze_cases validate_input_def)
  have D: "\<forall>v m e. ?val = Inr (v, m) \<and> scaler_transform self v = Inl e \<longrightarrow>
        ?res = Inr (ErrorPayload (''Model prediction error: '' @ exn_str e))"
    by (simp add: predict_and_analyze_cases)
  have E: "\<forall>v m s e. ?val = Inr (v, m)
            \<and> scaler_transform self v = Inr s \<and> predict_proba self s = Inl e \<longrightarrow>
        ?res = Inr (ErrorPayload (''Model prediction error: '' @ exn_str e))"
    by (simp add: predict_and_analyze_cases)
  have F: "if \<exists>i. np_argmax probs = Inr i \<and> i < length (classes self)
                 \<and> map_of (grup_ortalamalari self) (classes self ! i) \<noteq> None
         then \<exists>u k y. ?res = Inr (PredictionResult u k y)
         else \<exists>msg. ?res = Inr (ErrorPayload (''Error building comparison: '' @ msg))"
    if h: "?val = Inr (v, m)" "scaler_transform self v = Inr s"
      "predict_proba self s = Inr probs" "percentages_defined (classes self) probs"
    for v m s probs
  proof -
    from h(4) obtain pairs where pairs: "uyum_list (classes self) probs = Inr pairs"
      by (simp add: uyum_list_Inr)
    show ?thesis
    proof (cases "winner_and_comparison strip_lower self (dict_items user_scores) probs")
      case (Inl e)
      then have "\<not> (\<exists>r. winner_and_comparison strip_lower self (dict_items user_scores) probs
                         = Inr r)"
        by simp
      then have nc: "\<not> (\<exists>i. np_argmax probs = Inr i \<and> i < length (classes self)
                 \<and> map_of (grup_ortalamalari self) (classes self ! i) \<noteq> None)"
        using winner_and_comparison_success[of strip_lower self "dict_items user_scores" probs]
        by blast
      have "?res = Inr (ErrorPayload (''Error building comparison: '' @ exn_str e))"
        using Inl h pairs by (simp add: predict_and_analyze_cases)
      then have "\<exists>msg. ?res = Inr (ErrorPayload (''Error building comparison: '' @ msg))"
        by blast
      then show ?thesis by (simp only: nc if_False)
    next
      case (Inr r)
      then have "\<exists>r. winner_and_comparison strip_lower self (dict_items user_scores) probs
                       = Inr r"
        by blast
      then have c: "\<exists>i. np_argmax probs = Inr i \<and> i < length (classes self)
                 \<and> map_of (grup_ortalamalari self) (classes self ! i) \<noteq> None"
        using winner_and_comparison_success[of strip_lower self "dict_items user_scores" probs]
        by blast
      obtain k y where "r = (k, y)" by (cases r)
      then have "?res = Inr (PredictionResult (sorted_reverse uyum pairs) k y)"
        using Inr h pairs by (simp add: predict_and_analyze_cases)
      then have "\<exists>u k y. ?res = Inr (PredictionResult u k y)"
        by blast
      then show ?thesis by (simp only: c if_True)
    qed
  qed
  have C': "\<forall>d. user_scores = Dict d
            \<and> (\<exists>f \<in> set (feature_names self). is_other (resolve_score strip_lower d f)) \<longrightarrow>
        (\<exists>g \<in> set (feature_names self). is_other (resolve_score strip_lower d g)
            \<and> ?res = Inr (ErrorPayload (numeric_message g)))"
  proof (intro allI impI)
    fix d
    assume "user_scores = Dict d
            \<and> (\<exists>f \<in> set (feature_names self). is_other (resolve_score strip_lower d f))"
    then have "user_scores = Dict d
            \<and> \<not> list_all (\<lambda>f. \<not> is_other (resolve_score strip_lower d f)) (feature_names self)"
      by (auto simp: list_all_iff)
    then show "\<exists>g \<in> set (feature_names self). is_other (resolve_score strip_lower d g)
            \<and> ?res = Inr (ErrorPayload (numeric_message g))"
      using C[of d] by (elim conjE)
  qed
  have F': "\<forall>v m s probs. ?val = Inr (v, m)
            \<and> scaler_transform self v = Inr s \<and> predict_proba self s = Inr probs
            \<and> percentages_defined (classes self) probs \<longrightarrow>
        (if \<exists>i. np_argmax probs = Inr i \<and> i < length (classes self)
                 \<and> map_of (grup_ortalamalari self) (classes self ! i) \<noteq> None
         then \<exists>u k y. ?res = Inr (PredictionResult u k y)
         else \<exists>msg. ?res = Inr (ErrorPayload (''Error building comparison: '' @ msg)))"
  proof (intro allI impI)
    fix v m s probs
    assume "?val = Inr (v, m)
            \<and> scaler_transform self v = Inr s \<and> predict_proba self s = Inr probs
            \<and> percentages_defined (classes self) probs"
    then show "if \<exists>i. np_argmax probs = Inr i \<and> i < length (classes self)
                 \<and> map_of (grup_ortalamalari self) (classes self ! i) \<noteq> None
         then \<exists>u k y. ?res = Inr (PredictionResult u k y)
         else \<exists>msg. ?res = Inr (ErrorPayload (''Error building comparison: '' @ msg))"
      using F[of v m s probs] by (elim conjE)
  qed
  have U: "\<forall>probs. (\<forall>p \<in> set probs. in_unit_interval p) \<longrightarrow>
        percentages_defined (classes self) probs"
    by (intro allI impI percentages_defined_unit)
  have G: "\<forall>msg. payload_keys (ErrorPayload msg) = [''error'']" by simp
  show ?thesis by (intro conjI A B C' D E F' U G)
qed

theorem predict_and_analyze_never_raises_witness:
  "(\<exists>p. predict_and_analyze ascii_strip_lower example_service
           (Dict [(''Empathy'', PyInt 3)]) = Inr p)
   \<and> predict_and_analyze ascii_strip_lower example_service NotADict
     = Inr (ErrorPayload ''Input must be in 'dict' format.'')
   \<and> predict_and_analyze ascii_strip_lower
       (example_service\<lparr>scaler_transform := failing_scaler\<rparr>) (Dict [])
     = Inr (ErrorPayload (''Model prediction error: ''
                           @ ''X has 1 features, but the scaler is expecting 2''))
   \<and> predict_and_analyze ascii_strip_lower example_service
       (Dict [(''Empathy'', PyOther ''high'' (Inl (ValueError ''could not convert'')))])
     = Inr (ErrorPayload (numeric_message ''Empathy''))"
proof -
  let ?sl = ascii_strip_lower
  let ?bad = "example_service\<lparr>scaler_transform := failing_scaler\<rparr>"
  let ?g = "[(''Empathy'', PyInt 3)]"
  let ?d = "[(''Empathy'', PyOther ''high'' (Inl (ValueError ''could not convert'')))]"
  let ?e = "ValueError ''X has 1 features, but the scaler is expecting 2''"
  have g1: "validate_input ?sl (feature_names example_service) (Dict ?g) = Inr ([PyInt 3], [])"
    by code_simp
  have g2: "scaler_transform example_service [PyInt 3] = Inr [Finite 3]"
    by code_simp
  have g3: "predict_proba example_service [Finite 3]
            = Inr [float_literal (7/10), float_literal (3/10)]"
    by (simp add: example_service_def stub_classifier_def)
  have g4: "percentages_defined (classes example_service)
              [float_literal (7/10), float_literal (3/10)]"
    by code_simp
  have hyp: "\<forall>v m s probs.
       validate_input ?sl (feature_names example_service) (Dict ?g) = Inr (v, m)
       \<and> scaler_transform example_service v = Inr s
       \<and> predict_proba example_service s = Inr probs \<longrightarrow>
       percentages_defined (classes example_service) probs"
  proof (intro allI impI, elim conjE)
    fix v m s probs
    assume "validate_input ?sl (feature_names example_service) (Dict ?g) = Inr (v, m)"
    with g1 have v: "v = [PyInt 3]" by simp
    assume "scaler_transform example_service v = Inr s"
    with g2 v have s: "s = [Finite 3]" by simp
    assume "predict_proba example_service s = Inr probs"
    with g3 s have "probs = [float_literal (7/10), float_literal (3/10)]" by simp
    with g4 show "percentages_defined (classes example_service) probs" by simp
  qed
  have z: "\<exists>p. predict_and_analyze ?sl example_service (Dict ?g) = Inr p"
    by (rule predict_and_analyze_never_raises[of ?sl example_service "Dict ?g",
          THEN conjunct1, THEN mp]) (rule hyp)
  have "NotADict = NotADict \<longrightarrow> predict_and_analyze ?sl example_service NotADict
     = Inr (ErrorPayload ''Input must be in 'dict' format.'')"
    by (rule predict_and_analyze_never_raises[of ?sl example_service NotADict,
          THEN conjunct2, THEN conjunct1])
  then have a: "predict_and_analyze ?sl example_service NotADict
     = Inr (ErrorPayload ''Input must be in 'dict' format.'')" by simp
  have v: "validate_input ?sl (feature_names ?bad) (Dict [])
           = Inr ([PyFloat (Finite (1/2))], [''Empathy''])"
    by code_simp
  have s: "scaler_transform ?bad [PyFloat (Finite (1/2))] = Inl ?e"
    by (simp add: failing_scaler_def)
  note D = predict_and_analyze_never_raises[of ?sl ?bad "Dict []",
      THEN conjunct2, THEN conjunct2, THEN conjunct2, THEN conjunct1, rule_format,
      of "[PyFloat (Finite (1/2))]" "[''Empathy'']" ?e]
  have "predict_and_analyze ?sl ?bad (Dict [])
          = Inr (ErrorPayload (''Model prediction error: '' @ exn_str ?e))"
    by (rule D) (rule conjI[OF v s])
  then have b: "predict_and_analyze ?sl ?bad (Dict [])
     = Inr (ErrorPayload (''Model prediction error: ''
                           @ ''X has 1 features, but the scaler is expecting 2''))"
    by simp
  have fn: "feature_names example_service = [''Empathy'']"
    by (simp add: example_service_def)
  have o: "is_other (resolve_score ?sl ?d ''Empathy'')" by code_simp
  have n: "\<exists>f \<in> set (feature_names example_service). is_other (resolve_score ?sl ?d f)"
    unfolding fn using o by simp
  note C = predict_and_analyze_never_raises[of ?sl example_service "Dict ?d",
      THEN conjunct2, THEN conjunct2, THEN conjunct1, rule_format, of ?d]
  have "\<exists>g \<in> set (feature_names example_service). is_other (resolve_score ?sl ?d g)
            \<and> predict_and_analyze ?sl example_service (Dict ?d)
                = Inr (ErrorPayload (numeric_message g))"
    by (rule C) (rule conjI[OF refl n])
  then have c: "predict_and_analyze ?sl example_service (Dict ?d)
     = Inr (ErrorPayload (numeric_message ''Empathy''))"
    unfolding fn by simp
  from z a b c show ?thesis by (intro conjI)
qed

text \<open>
  Claim C3 as stated fails. With a label encoder that knows the class \<open>Doctor\<close> and a
  group-average table without a row for it, validation, scaling and classification all
  succeed (none of the three listed conditions holds), and yet the result is an error
  dictionary, not a prediction result; the error dictionary has the one key \<open>error\<close>,
  no kind; and with a classifier that answers a NaN the method raises.
\<close>

theorem predict_and_analyze_never_raises_counterexample:
  "validate_input ascii_strip_lower (feature_names drifted_service)
       (Dict [(''Empathy'', PyInt 3)]) = Inr ([PyInt 3], [])
   \<and> scaler_transform drifted_service [PyInt 3] = Inr [Finite 3]
   \<and> predict_proba drifted_service [Finite 3]
       = Inr [float_literal (7/10), float_literal (3/10)]
   \<and> predict_and_analyze ascii_strip_lower drifted_service (Dict [(''Empathy'', PyInt 3)])
       = Inr (ErrorPayload (''Error building comparison: '' @ exn_str (KeyError ''Doctor'')))
   \<and> payload_keys (ErrorPayload (''Error building comparison: '' @ exn_str (KeyError ''Doctor'')))
       = [''error'']
   \<and> predict_and_analyze ascii_strip_lower
         (example_service\<lparr>predict_proba := nan_classifier\<rparr>) (Dict [(''Empathy'', PyInt 3)])
       = Inl (ValueError ''cannot convert float NaN to integer'')"
  by code_simp

text \<open>
  Claim C4, as amended. When the classifier has produced probabilities in [0, 1], the
  returned compatibility list has one pair per element of
  \<open>zip(self.le.classes_, probabilities)\<close>: it is a rearrangement of the pairs
  (class, \<open>round(prob * 100)\<close>) taken in encoder order, so it has as many entries as the
  shorter of the two sequences, and one per class when the classifier has produced one
  probability per class. \<open>round(prob * 100)\<close> is the float product rounded to the nearest
  integer, ties to even; it does not raise and is an integer between 0 and 100. The list
  is sorted descending by compatibility, and pairs with the same compatibility keep
  their encoder order.
\<close>

theorem uyum_skorlari_ranked:
  assumes "validate_input strip_lower (feature_names self) user_scores = Inr (v, m)"
      and "scaler_transform self v = Inr s"
      and "predict_proba self s = Inr probabilities"
      and "\<forall>p \<in> set probabilities. in_unit_interval p"
      and "predict_and_analyze strip_lower self user_scores
             = Inr (PredictionResult uyum_skorlari kazanan rows)"
  shows "length uyum_skorlari = min (length (classes self)) (length probabilities)
       \<and> (length probabilities = length (classes self) \<longrightarrow>
            length uyum_skorlari = length (classes self))
       \<and> mset uyum_skorlari
           = mset (map2 (\<lambda>c p. \<lparr>meslek = c, uyum = percentage p\<rparr>)
                        (classes self) probabilities)
       \<and> (\<forall>p \<in> set probabilities.
            round_percent p = Inr (percentage p) \<and> 0 \<le> percentage p \<and> percentage p \<le> 100)
       \<and> (\<forall>x \<in> set uyum_skorlari. 0 \<le> uyum x \<and> uyum x \<le> 100)
       \<and> sorted_wrt (\<lambda>a b. uyum b \<le> uyum a) uyum_skorlari
       \<and> (\<forall>k. filter (\<lambda>x. uyum x = k) uyum_skorlari
              = filter (\<lambda>x. uyum x = k)
                  (map2 (\<lambda>c p. \<lparr>meslek = c, uyum = percentage p\<rparr>)
                        (classes self) probabilities))"
proof -
  let ?pairs = "map2 (\<lambda>c p. \<lparr>meslek = c, uyum = percentage p\<rparr>) (classes self) probabilities"
  have u: "uyum_skorlari = sorted_reverse uyum ?pairs"
    using predict_and_analyze_success[OF assms(1,2,3,5)] by simp
  have 1: "length uyum_skorlari = min (length (classes self)) (length probabilities)"
    by (simp add: u sorted_reverse_length)
  then have 7: "length probabilities = length (classes self) \<longrightarrow>
            length uyum_skorlari = length (classes self)" by simp
  have 2: "mset uyum_skorlari = mset ?pairs"
    by (simp add: u sorted_reverse_mset)
  have 3: "\<forall>p \<in> set probabilities.
            round_percent p = Inr (percentage p) \<and> 0 \<le> percentage p \<and> percentage p \<le> 100"
    using assms(4) by (intro ballI percentage_unit) simp
  have 4: "\<forall>x \<in> set uyum_skorlari. 0 \<le> uyum x \<and> uyum x \<le> 100"
  proof
    fix x assume "x \<in> set uyum_skorlari"
    then have "x \<in> set ?pairs" by (simp add: u sorted_reverse_set)
    then obtain c p where cp: "(c, p) \<in> set (zip (classes self) probabilities)"
      and x: "x = \<lparr>meslek = c, uyum = percentage p\<rparr>" by auto
    from cp have "p \<in> set probabilities" by (rule set_zip_rightD)
    with 3 x show "0 \<le> uyum x \<and> uyum x \<le> 100" by simp
  qed
  have 5: "sorted_wrt (\<lambda>a b. uyum b \<le> uyum a) uyum_skorlari"
    unfolding u by (rule sorted_reverse_descending)
  have 6: "\<forall>k. filter (\<lambda>x. uyum x = k) uyum_skorlari = filter (\<lambda>x. uyum x = k) ?pairs"
    unfolding u by (simp add: sorted_reverse_stable)
  from 1 7 2 3 4 5 6 show ?thesis by (intro conjI)
qed

theorem uyum_skorlari_ranked_witness:
  "predict_and_analyze ascii_strip_lower tie_service
       (Dict [(''empathy'', PyFloat (Finite (7/2)))])
     = Inr (PredictionResult
              [\<lparr>meslek = ''Engineer'', uyum = 38\<rparr>, \<lparr>meslek = ''Teacher'', uyum = 38\<rparr>,
               \<lparr>meslek = ''Doctor'', uyum = 25\<rparr>]
              ''Engineer''
              [\<lparr>yetkinlik = ''Empathy'', kullanici_skoru = Finite (7/2),
                grup_ortalamasi = float_literal (11/5), fark = float_literal (6/5)\<rparr>,
               \<lparr>yetkinlik = ''Logic'', kullanici_skoru = Finite (1/2),
                grup_ortalamasi = Finite (1/2), fark = Finite 0\<rparr>])
   \<and> length [\<lparr>meslek = ''Engineer'', uyum = 38\<rparr>, \<lparr>meslek = ''Teacher'', uyum = 38\<rparr>,
              \<lparr>meslek = ''Doctor'', uyum = 25\<rparr>] = length (classes tie_service)
   \<and> sorted_wrt (\<lambda>a b. uyum b \<le> uyum a)
        [\<lparr>meslek = ''Engineer'', uyum = 38\<rparr>, \<lparr>meslek = ''Teacher'', uyum = 38\<rparr>,
         \<lparr>meslek = ''Doctor'', uyum = 25\<rparr>]
   \<and> filter (\<lambda>x. uyum x = 38)
        [\<lparr>meslek = ''Engineer'', uyum = 38\<rparr>, \<lparr>meslek = ''Teacher'', uyum = 38\<rparr>,
         \<lparr>meslek = ''Doctor'', uyum = 25\<rparr>]
      = filter (\<lambda>x. uyum x = 38)
          (map2 (\<lambda>c p. \<lparr>meslek = c, uyum = percentage p\<rparr>) (classes tie_service)
                [Finite (1/4), Finite (3/8), Finite (3/8)])"
proof -
  let ?u = "Dict [(''empathy'', PyFloat (Finite (7/2)))]"
  let ?v = "[PyFloat (Finite (7/2)), PyFloat (Finite (1/2))]"
  let ?s = "[Finite (7/2), Finite (1/2)]"
  let ?p = "[Finite (1/4), Finite (3/8), Finite (3/8)]"
  let ?l = "[\<lparr>meslek = ''Engineer'', uyum = 38\<rparr>, \<lparr>meslek = ''Teacher'', uyum = 38\<rparr>,
             \<lparr>meslek = ''Doctor'', uyum = 25\<rparr>]"
  let ?rows = "[\<lparr>yetkinlik = ''Empathy'', kullanici_skoru = Finite (7/2),
                grup_ortalamasi = float_literal (11/5), fark = float_literal (6/5)\<rparr>,
               \<lparr>yetkinlik = ''Logic'', kullanici_skoru = Finite (1/2),
                grup_ortalamasi = Finite (1/2), fark = Finite 0\<rparr>]"
  have h1: "validate_input ascii_strip_lower (feature_names tie_service) ?u
            = Inr (?v, [''Logic''])"
    by code_simp
  have h2: "scaler_transform tie_service ?v = Inr ?s"
    by code_simp
  have h3: "predict_proba tie_service ?s = Inr ?p"
    by (simp add: tie_service_def tie_classifier_def)
  have h4: "\<forall>p \<in> set ?p. in_unit_interval p"
    by (simp add: in_unit_interval_def float_le_def)
  have h5: "predict_and_analyze ascii_strip_lower tie_service ?u
     = Inr (PredictionResult ?l ''Engineer'' ?rows)"
    by code_simp
  note t = uyum_skorlari_ranked[OF h1 h2 h3 h4 h5]
  have a: "length ?l = length (classes tie_service)"
    by (rule t[THEN conjunct2, THEN conjunct1, THEN mp]) (simp add: tie_service_def)
  have b: "sorted_wrt (\<lambda>a b. uyum b \<le> uyum a) ?l"
    by (rule t[THEN conjunct2, THEN conjunct2, THEN conjunct2, THEN conjunct2,
               THEN conjunct2, THEN conjunct1])
  have c: "filter (\<lambda>x. uyum x = 38) ?l
      = filter (\<lambda>x. uyum x = 38)
          (map2 (\<lambda>c p. \<lparr>meslek = c, uyum = percentage p\<rparr>) (classes tie_service) ?p)"
    by (rule t[THEN conjunct2, THEN conjunct2, THEN conjunct2, THEN conjunct2,
               THEN conjunct2, THEN conjunct2, rule_format])
  from h5 a b c show ?thesis by (intro conjI)
qed

text \<open>
  Claim C4 as stated fails: the label encoder and the classifier are loaded from
  separate files, and with an encoder of three classes and a classifier that answers two
  probabilities, both in [0, 1], the result is a successful prediction whose
  compatibility list has two pairs, not one per class.
\<close>

theorem uyum_skorlari_ranked_counterexample:
  "validate_input ascii_strip_lower (feature_names short_service) (Dict [])
     = Inr ([PyFloat (Finite (1/2)), PyFloat (Finite (1/2))], [''Empathy'', ''Logic''])
   \<and> scaler_transform short_service [PyFloat (Finite (1/2)), PyFloat (Finite (1/2))]
     = Inr [Finite (1/2), Finite (1/2)]
   \<and> predict_proba short_service [Finite (1/2), Finite (1/2)]
     = Inr [Finite (3/4), Finite (1/4)]
   \<and> in_unit_interval (Finite (3/4)) \<and> in_unit_interval (Finite (1/4))
   \<and> predict_and_analyze ascii_strip_lower short_service (Dict [])
     = Inr (PredictionResult
              [\<lparr>meslek = ''Doctor'', uyum = 75\<rparr>, \<lparr>meslek = ''Engineer'', uyum = 25\<rparr>]
              ''Doctor''
              [\<lparr>yetkinlik = ''Empathy'', kullanici_skoru = Finite (1/2),
                grup_ortalamasi = Finite 4, fark = Finite (- 7/2)\<rparr>,
               \<lparr>yetkinlik = ''Logic'', kullanici_skoru = Finite (1/2),
                grup_ortalamasi = Finite 3, fark = Finite (- 5/2)\<rparr>])
   \<and> length [\<lparr>meslek = ''Doctor'', uyum = 75\<rparr>, \<lparr>meslek = ''Engineer'', uyum = 25\<rparr>] = 2
   \<and> classes short_service = [''Doctor'', ''Engineer'', ''Teacher'']"
  by code_simp

text \<open>
  Claim C5. In a successful result the winning occupation is the class at the first
  position of the largest raw probability: no probability is larger and every earlier
  one is strictly smaller. The comparison has one row per canonical feature, in
  canonical order, whatever the scores and the averages are; when the entries of the feature vector and the winner's group
  averages are numbers that \<open>float\<close> accepts (floats, and ints that are not too large
  for a float), the row of a feature holds the user's score (the entry of the feature
  vector), the group average and their float difference, each rounded to one decimal by
  \<open>round(x, 1)\<close>, where the group average of a feature that the winner's row does not
  have is the neutral default 0.5.
\<close>

theorem winner_and_comparison_rows:
  assumes "validate_input strip_lower (feature_names self) (Dict d) = Inr (v, m)"
      and "scaler_transform self v = Inr s"
      and "predict_proba self s = Inr probabilities"
      and "predict_and_analyze strip_lower self (Dict d)
             = Inr (PredictionResult uyum_skorlari kazanan rows)"
  shows "\<exists>i avgs. i < length probabilities \<and> i < length (classes self)
       \<and> kazanan = classes self ! i
       \<and> (\<forall>j < length probabilities. float_le (probabilities ! j) (probabilities ! i))
       \<and> (\<forall>j < i. float_lt (probabilities ! j) (probabilities ! i))
       \<and> map_of (grup_ortalamalari self) kazanan = Some avgs
       \<and> length rows = length (feature_names self)
       \<and> map yetkinlik rows = feature_names self
       \<and> (list_all convertible v \<and> convertible_scores avgs \<longrightarrow>
            rows = map2 (\<lambda>f u. \<lparr>yetkinlik = f,
                                kullanici_skoru = round1_float (float_value u),
                                grup_ortalamasi = round1_float (group_average avgs f),
                                fark = round1_float
                                         (float_sub (float_value u) (group_average avgs f))\<rparr>)
                        (feature_names self) v)"
proof -
  from predict_and_analyze_success[OF assms]
  have pd: "percentages_defined (classes self) probabilities"
    and wc: "winner_and_comparison strip_lower self d probabilities = Inr (kazanan, rows)"
    by simp_all
  from wc obtain i avgs where i: "np_argmax probabilities = Inr i" "i < length (classes self)"
    "kazanan = classes self ! i" "map_of (grup_ortalamalari self) kazanan = Some avgs"
    and rows: "rows = map (comparison_row strip_lower d avgs) (feature_names self)"
    unfolding winner_and_comparison_Inr by blast
  note am = np_argmax_first_max[OF i(1)]
  then have il: "i < length probabilities" by simp
  have "\<not> is_nan (probabilities ! i)"
    using percentages_defined_nth[OF pd i(2) il] by (rule has_percentage_not_nan)
  with am have mx: "\<forall>j < length probabilities. float_le (probabilities ! j) (probabilities ! i)"
    "\<forall>j < i. float_lt (probabilities ! j) (probabilities ! i)" by auto
  from validate_input_Inr[OF assms(1)]
  have v: "v = map (\<lambda>f. score_or_default (resolve_score strip_lower d f)) (feature_names self)"
    by simp
  have r: "rows = map2 (\<lambda>f u. \<lparr>yetkinlik = f,
                                kullanici_skoru = round1_float (float_value u),
                                grup_ortalamasi = round1_float (group_average avgs f),
                                fark = round1_float
                                         (float_sub (float_value u) (group_average avgs f))\<rparr>)
                        (feature_names self) v"
    if n: "list_all convertible v \<and> convertible_scores avgs"
  proof -
    from n have n1: "\<forall>f \<in> set (feature_names self).
                       convertible (score_or_default (resolve_score strip_lower d f))"
      and n2: "convertible_scores avgs" by (simp_all add: v list_all_iff)
    have "map (comparison_row strip_lower d avgs) (feature_names self)
          = map (\<lambda>f. \<lparr>yetkinlik = f,
                kullanici_skoru =
                  round1_float (float_value (score_or_default (resolve_score strip_lower d f))),
                grup_ortalamasi = round1_float (group_average avgs f),
                fark = round1_float
                         (float_sub (float_value (score_or_default (resolve_score strip_lower d f)))
                                    (group_average avgs f))\<rparr>)
              (feature_names self)"
      using n1 by (intro map_cong refl comparison_row_convertible[OF _ n2]) simp
    then show ?thesis
      unfolding rows v by (simp add: zip_map2 zip_same_conv_map)
  qed
  have l: "length rows = length (feature_names self)" by (simp add: rows)
  have y: "map yetkinlik rows = feature_names self"
    by (simp add: rows comparison_row_yetkinlik o_def)
  from il i(2,3,4) mx r l y show ?thesis by blast
qed

theorem winner_and_comparison_rows_witness:
  "float_lt (Finite (1/4)) (Finite (3/8))
   \<and> [\<lparr>yetkinlik = ''Empathy'', kullanici_skoru = Finite (7/2),
        grup_ortalamasi = float_literal (11/5), fark = float_literal (6/5)\<rparr>,
       \<lparr>yetkinlik = ''Logic'', kullanici_skoru = Finite (1/2),
        grup_ortalamasi = Finite (1/2), fark = Finite 0\<rparr>]
      = map2 (\<lambda>f u. \<lparr>yetkinlik = f,
                      kullanici_skoru = round1_float (float_value u),
                      grup_ortalamasi =
                        round1_float (group_average [(''Empathy'', PyFloat (Finite (9/4)))] f),
                      fark = round1_float
                               (float_sub (float_value u)
                                  (group_average [(''Empathy'', PyFloat (Finite (9/4)))] f))\<rparr>)
             [''Empathy'', ''Logic''] [PyFloat (Finite (7/2)), PyFloat (Finite (1/2))]"
proof -
  let ?u = "Dict [(''empathy'', PyFloat (Finite (7/2)))]"
  let ?v = "[PyFloat (Finite (7/2)), PyFloat (Finite (1/2))]"
  let ?s = "[Finite (7/2), Finite (1/2)]"
  let ?p = "[Finite (1/4), Finite (3/8), Finite (3/8)]"
  let ?rows = "[\<lparr>yetkinlik = ''Empathy'', kullanici_skoru = Finite (7/2),
                 grup_ortalamasi = float_literal (11/5), fark = float_literal (6/5)\<rparr>,
                \<lparr>yetkinlik = ''Logic'', kullanici_skoru = Finite (1/2),
                 grup_ortalamasi = Finite (1/2), fark = Finite 0\<rparr>]"
  let ?a = "[(''Empathy'', PyFloat (Finite (9/4)))]"
  have h1: "validate_input ascii_strip_lower (feature_names tie_service) ?u
            = Inr (?v, [''Logic''])"
    by code_simp
  have h2: "scaler_transform tie_service ?v = Inr ?s"
    by code_simp
  have h3: "predict_proba tie_service ?s = Inr ?p"
    by (simp add: tie_service_def tie_classifier_def)
  have h4: "predict_and_analyze ascii_strip_lower tie_service ?u
     = Inr (PredictionResult
              [\<lparr>meslek = ''Engineer'', uyum = 38\<rparr>, \<lparr>meslek = ''Teacher'', uyum = 38\<rparr>,
               \<lparr>meslek = ''Doctor'', uyum = 25\<rparr>]
              ''Engineer'' ?rows)"
    by code_simp
  from winner_and_comparison_rows[OF h1 h2 h3 h4]
  obtain i avgs where i: "i < length (classes tie_service)"
    "''Engineer'' = classes tie_service ! i"
    and lt: "\<forall>j < i. float_lt (?p ! j) (?p ! i)"
    and avgs: "map_of (grup_ortalamalari tie_service) ''Engineer'' = Some avgs"
    and rows: "list_all convertible ?v \<and> convertible_scores avgs \<longrightarrow>
            ?rows = map2 (\<lambda>f u. \<lparr>yetkinlik = f,
                                kullanici_skoru = round1_float (float_value u),
                                grup_ortalamasi = round1_float (group_average avgs f),
                                fark = round1_float
                                         (float_sub (float_value u) (group_average avgs f))\<rparr>)
                        (feature_names tie_service) ?v"
    by (elim exE conjE)
  have cl: "classes tie_service = [''Doctor'', ''Engineer'', ''Teacher'']"
    by (simp add: tie_service_def)
  have "i = 0 \<or> i = 1 \<or> i = 2" using i(1) unfolding cl by auto
  with i(2) have i1: "i = 1" unfolding cl by auto
  from lt have a: "float_lt (Finite (1/4)) (Finite (3/8))" unfolding i1 by simp
  have "map_of (grup_ortalamalari tie_service) ''Engineer'' = Some ?a" by code_simp
  with avgs have av: "avgs = ?a" by simp
  have c: "list_all convertible ?v \<and> convertible_scores ?a" by code_simp
  have fn: "feature_names tie_service = [''Empathy'', ''Logic'']"
    by (simp add: tie_service_def)
  from rows[unfolded av, THEN mp, OF c] have b: "?rows = map2 (\<lambda>f u. \<lparr>yetkinlik = f,
                                kullanici_skoru = round1_float (float_value u),
                                grup_ortalamasi = round1_float (group_average ?a f),
                                fark = round1_float
                                         (float_sub (float_value u) (group_average ?a f))\<rparr>)
                        [''Empathy'', ''Logic''] ?v"
    unfolding fn .
  from a b show ?thesis by (rule conjI)
qed

section \<open>Lemmas about the score aggregation\<close>

text \<open>
  The aggregation of \<open>submit_responses_and_predict\<close> never raises and maps every cleaned
  competency name that occurs in the rows to the mean of its scores rounded to one
  decimal, and no other name; in the exact arithmetic of this section, rows that are a
  rearrangement of each other give the same mapping; no rows give the empty mapping.
\<close>

lemma map_of_dict_set: "map_of (dict_set d k v) = (map_of d)(k \<mapsto> v)"
  by (induction d k v rule: dict_set.induct) (auto simp: fun_eq_iff)

lemma keys_dict_set:
  "fst ` set (dict_set d k v) = insert k (fst ` set d)"
  by (induction d k v rule: dict_set.induct) auto

lemma accumulate_totals:
  "accumulate key rows totals counts = (T, C) \<Longrightarrow>
   map_of T k = (if scores_of key rows k = [] then map_of totals k
                 else Some (dict_get_default totals k 0 + sum_list (scores_of key rows k)))"
proof (induction key rows totals counts arbitrary: T C rule: accumulate.induct)
  case (1 key totals counts)
  then show ?case by (simp add: scores_of_def)
next
  case (2 key score comp_name rows totals counts)
  from "2.prems" have a: "accumulate key rows
        (dict_set totals (key comp_name) (dict_get_default totals (key comp_name) 0 + score))
        (dict_set counts (key comp_name) (dict_get_default counts (key comp_name) 0 + 1)) = (T, C)"
    by (simp add: Let_def)
  from "2.IH"[OF refl a] show ?case
    by (auto simp: scores_of_def map_of_dict_set dict_get_default_def split: option.splits)
qed

lemma accumulate_counts:
  "accumulate key rows totals counts = (T, C) \<Longrightarrow>
   map_of C k = (if scores_of key rows k = [] then map_of counts k
                 else Some (dict_get_default counts k 0 + length (scores_of key rows k)))"
proof (induction key rows totals counts arbitrary: T C rule: accumulate.induct)
  case (1 key totals counts)
  then show ?case by (simp add: scores_of_def)
next
  case (2 key score comp_name rows totals counts)
  from "2.prems" have a: "accumulate key rows
        (dict_set totals (key comp_name) (dict_get_default totals (key comp_name) 0 + score))
        (dict_set counts (key comp_name) (dict_get_default counts (key comp_name) 0 + 1)) = (T, C)"
    by (simp add: Let_def)
  from "2.IH"[OF refl a] show ?case
    by (auto simp: scores_of_def map_of_dict_set dict_get_default_def split: option.splits)
qed

lemma accumulate_keys:
  "accumulate key rows totals counts = (T, C) \<Longrightarrow>
   fst ` set T = fst ` set totals \<union> key ` snd ` set rows"
proof (induction key rows totals counts arbitrary: T C rule: accumulate.induct)
  case (1 key totals counts)
  then show ?case by simp
next
  case (2 key score comp_name rows totals counts)
  from "2.prems" have a: "accumulate key rows
        (dict_set totals (key comp_name) (dict_get_default totals (key comp_name) 0 + score))
        (dict_set counts (key comp_name) (dict_get_default counts (key comp_name) 0 + 1)) = (T, C)"
    by (simp add: Let_def)
  from "2.IH"[OF refl a] show ?case
    by (simp add: keys_dict_set)
qed

lemma scores_of_nonempty: "scores_of key rows k \<noteq> [] \<longleftrightarrow> k \<in> key ` snd ` set rows"
  by (auto simp: scores_of_def filter_empty_conv image_iff)

lemma average_items_ok:
  assumes "\<forall>k \<in> set ks. \<exists>t n. map_of totals k = Some t \<and> map_of counts k = Some n \<and> n \<noteq> 0"
  shows "average_items f totals counts ks =
           Inr (map (\<lambda>k. (k, f (the (map_of totals k) / of_nat (the (map_of counts k))))) ks)"
  using assms by (induction ks) auto


lemma map_of_keyed:
  "map_of (map (\<lambda>x. (h x, g (h x))) xs) k = (if k \<in> h ` set xs then Some (g k) else None)"
  by (induction xs) auto

lemma submit_user_scores_map:
  "\<exists>d. submit_user_scores rows = Inr d
     \<and> map_of d = (\<lambda>k. if k \<in> clean_name ` snd ` set rows
                         then Some (py_round1 (mean (scores_of clean_name rows k))) else None)"
proof -
  obtain T C where acc: "accumulate clean_name rows [] [] = (T, C)"
    by (cases "accumulate clean_name rows [] []")
  note t = accumulate_totals[OF acc] and c = accumulate_counts[OF acc]
    and ks = accumulate_keys[OF acc]
  have kin: "k \<in> fst ` set T \<longleftrightarrow> scores_of clean_name rows k \<noteq> []" for k
    by (simp add: ks scores_of_nonempty)
  have pre: "\<forall>k \<in> set (map fst T). \<exists>t n. map_of T k = Some t \<and> map_of C k = Some n \<and> n \<noteq> 0"
    using kin by (auto simp: t c)
  let ?d = "map (\<lambda>k. (k, py_round1 (the (map_of T k) / of_nat (the (map_of C k))))) (map fst T)"
  have r: "submit_user_scores rows = Inr ?d"
    using average_items_ok[OF pre, of py_round1] by (simp add: submit_user_scores_def acc)
  have m: "map_of ?d k = (if k \<in> clean_name ` snd ` set rows
                         then Some (py_round1 (mean (scores_of clean_name rows k))) else None)" for k
  proof (cases "k \<in> fst ` set T")
    case True
    then have ne: "scores_of clean_name rows k \<noteq> []" by (simp add: kin)
    have "map_of ?d k = Some (py_round1 (the (map_of T k) / of_nat (the (map_of C k))))"
      using True map_of_keyed[of fst "\<lambda>k. py_round1 (the (map_of T k) / of_nat (the (map_of C k)))" T k] by (simp add: o_def)
    then show ?thesis using ne
      by (simp add: t c mean_def dict_get_default_def scores_of_nonempty)
  next
    case False
    then have e: "scores_of clean_name rows k = []" by (simp add: kin)
    have "map_of ?d k = None"
      using False map_of_keyed[of fst "\<lambda>k. py_round1 (the (map_of T k) / of_nat (the (map_of C k)))" T k] by (simp add: o_def)
    then show ?thesis using e scores_of_nonempty[of clean_name rows k] by simp
  qed
  from r m show ?thesis by (intro exI[of _ ?d]) (simp add: fun_eq_iff)
qed

lemma scores_of_mset:
  "mset rows = mset rows' \<Longrightarrow> mset (scores_of key rows k) = mset (scores_of key rows' k)"
proof -
  have "mset (scores_of key xs k)
        = image_mset fst (filter_mset (\<lambda>r. key (snd r) = k) (mset xs))" for xs
    by (simp add: scores_of_def)
  then show "mset rows = mset rows' \<Longrightarrow> ?thesis" by simp
qed

lemma mean_mset: "mset xs = mset ys \<Longrightarrow> mean xs = mean ys"
proof -
  assume a: "mset xs = mset ys"
  then have "sum_list xs = sum_list ys"
    by (metis sum_mset_sum_list)
  moreover from a have "length xs = length ys"
    by (metis size_mset)
  ultimately show ?thesis by (simp add: mean_def)
qed

lemma submit_user_scores_order:
  assumes "mset rows = mset rows'"
  shows "\<exists>d d'. submit_user_scores rows = Inr d \<and> submit_user_scores rows' = Inr d'
            \<and> map_of d = map_of d'"
proof -
  from submit_user_scores_map[of rows] obtain d where d: "submit_user_scores rows = Inr d"
    "map_of d = (\<lambda>k. if k \<in> clean_name ` snd ` set rows
                         then Some (py_round1 (mean (scores_of clean_name rows k))) else None)"
    by blast
  from submit_user_scores_map[of rows'] obtain d' where d': "submit_user_scores rows' = Inr d'"
    "map_of d' = (\<lambda>k. if k \<in> clean_name ` snd ` set rows'
                         then Some (py_round1 (mean (scores_of clean_name rows' k))) else None)"
    by blast
  have s: "set rows = set rows'" using assms by (metis set_mset_mset)
  have "mean (scores_of clean_name rows k) = mean (scores_of clean_name rows' k)" for k
    by (rule mean_mset) (rule scores_of_mset[OF assms])
  then have "map_of d = map_of d'" by (simp add: d(2) d'(2) s fun_eq_iff)
  with d(1) d'(1) show ?thesis by blast
qed

lemma submit_user_scores_empty: "submit_user_scores [] = Inr []"
  by (simp add: submit_user_scores_def)

section \<open>Claims about the score aggregation\<close>

text \<open>
  Claim C1. Every competency of a user with recorded responses is mapped, under its
  cleaned name, to the mean of its scores rounded to one decimal. The aggregation of
  \<open>submit_responses_and_predict\<close> does that (the three lemmas above); the aggregation
  of \<open>get_result_from_saved_responses\<close> does not: for the scores 1, 2, 2 of one
  competency it returns the unrounded mean 5/3 where the other endpoint returns 1.7,
  it keeps a quoted spelling of a name apart from the clean one, and it rejects a user
  without rows instead of returning the empty mapping.
\<close>

theorem saved_user_scores_differs:
  "saved_user_scores [(1, ''Empathy''), (2, ''Empathy''), (2, ''Empathy'')]
     = Inr [(''Empathy'', 5/3)]
   \<and> submit_user_scores [(1, ''Empathy''), (2, ''Empathy''), (2, ''Empathy'')]
     = Inr [(''Empathy'', 17/10)]
   \<and> py_round1 (mean [1, 2, 2]) = 17/10
   \<and> saved_user_scores [(3, '' 'Empathy' ''), (4, ''Empathy'')]
     = Inr [('' 'Empathy' '', 3), (''Empathy'', 4)]
   \<and> submit_user_scores [(3, '' 'Empathy' ''), (4, ''Empathy'')]
     = Inr [(''Empathy'', 7/2)]
   \<and> saved_user_scores [] = Inl (HTTPException 400 ''No responses found for user'')
   \<and> submit_user_scores [] = Inr []"
  by code_simp

section \<open>Lemmas about the stored options and their letters\<close>

lemma options_of_set:
  "set (options_of d sid) = {opt \<in> set (scenariooption d). scenarioid opt = sid}"
  by (auto simp: options_of_def)

lemma options_of_distinct:
  "distinct (map scenariooptionid (scenariooption d)) \<Longrightarrow>
   distinct (map scenariooptionid (options_of d sid))"
proof -
  assume a: "distinct (map scenariooptionid (scenariooption d))"
  let ?xs = "filter (\<lambda>opt. scenarioid opt = sid) (scenariooption d)"
  have f: "distinct (map scenariooptionid ?xs)" by (rule distinct_map_filter[OF a])
  have "mset (map scenariooptionid (sort_key scenariooptionid ?xs))
        = mset (map scenariooptionid ?xs)" by simp
  from mset_eq_imp_distinct_iff[OF this] f show ?thesis by (simp add: options_of_def)
qed

lemma options_of_distinct_rows:
  "distinct (map scenariooptionid (scenariooption d)) \<Longrightarrow> distinct (options_of d sid)"
  using options_of_distinct[of d sid] by (rule distinct_map[THEN iffD1, THEN conjunct1])

lemma list_index_nth:
  "distinct xs \<Longrightarrow> K < length xs \<Longrightarrow> list_index xs (xs ! K) = Some K"
proof (induction xs arbitrary: K)
  case Nil
  then show ?case by simp
next
  case (Cons y ys)
  show ?case
  proof (cases K)
    case 0
    then show ?thesis by simp
  next
    case (Suc j)
    with Cons.prems have "j < length ys" "distinct ys" "ys ! j \<noteq> y" by auto
    with Cons.IH[of j] Suc show ?thesis by auto
  qed
qed

lemma options_with_letters_nth:
  assumes "K < length (options_of d sid)"
  shows "options_with_letters d sid ! K
         = ([letter_of_index K], optiontext (options_of d sid ! K))"
  using assms
  by (simp add: options_with_letters_def options_of_def nth_enumerate_eq)

lemma score_map_key_nth:
  assumes "distinct (map scenariooptionid (scenariooption d))"
      and "K < length (options_of d sid)"
  shows "score_map_key d (options_of d sid ! K) = Inr (sid, [letter_of_index K])"
proof -
  have "options_of d sid ! K \<in> set (options_of d sid)" using assms(2) by simp
  then have s: "scenarioid (options_of d sid ! K) = sid" by (simp add: options_of_set)
  from list_index_nth[OF options_of_distinct_rows[OF assms(1)] assms(2)]
  show ?thesis by (simp add: score_map_key_def s)
qed

lemma upper_letter_of_index:
  "K < 32 \<Longrightarrow> upper [letter_of_index K] = [letter_of_index K]
               \<and> int (of_char (letter_of_index K)) - int (of_char CHR ''A'') = int K"
  by (simp add: upper_def upper_char_def letter_of_index_def Let_def)

lemma convert_nth:
  assumes "K < length (options_of d sid)" and "K < 32"
  shows "convert_option_letter_to_scenariooptionid d sid [letter_of_index K]
         = Inr (scenariooptionid (options_of d sid ! K))"
proof -
  from assms(1) have ne: "options_of d sid \<noteq> []" by auto
  from upper_letter_of_index[OF assms(2)] assms(1) ne show ?thesis
    by (simp add: convert_option_letter_to_scenariooptionid_def Let_def)
qed

lemma dict_set_subset: "set (dict_set d k v) \<subseteq> insert (k, v) (set d)"
  by (induction d k v rule: dict_set.induct) auto

lemma dict_set_distinct:
  "distinct (map fst d) \<Longrightarrow> distinct (map fst (dict_set d k v))"
proof (induction d k v rule: dict_set.induct)
  case (1 k v)
  then show ?case by simp
next
  case (2 k' v' d k v)
  then show ?case using keys_dict_set[of d k v] by auto
qed

lemma unique_loop_map_of:
  "map_of (unique_loop rs u) k =
     (case filter (\<lambda>r. scenario_id r = k) rs of
        [] \<Rightarrow> map_of u k
      | x # xs \<Rightarrow> Some (last (x # xs)))"
proof (induction rs arbitrary: u)
  case Nil
  then show ?case by simp
next
  case (Cons r rs)
  show ?case
    by (simp add: Cons.IH map_of_dict_set split: list.splits)
qed

lemma unique_loop_distinct:
  "distinct (map fst u) \<Longrightarrow> distinct (map fst (unique_loop rs u))"
  by (induction rs arbitrary: u) (simp_all add: dict_set_distinct)

lemma unique_loop_keys:
  "fst ` set (unique_loop rs u) = fst ` set u \<union> scenario_id ` set rs"
  by (induction rs arbitrary: u) (auto simp: keys_dict_set)

lemma unique_loop_key_eq:
  "\<forall>kr \<in> set u. scenario_id (snd kr) = fst kr \<Longrightarrow>
   \<forall>kr \<in> set (unique_loop rs u). scenario_id (snd kr) = fst kr"
proof (induction rs arbitrary: u)
  case Nil
  then show ?case by simp
next
  case (Cons r rs)
  have "\<forall>kr \<in> set (dict_set u (scenario_id r) r). scenario_id (snd kr) = fst kr"
    using Cons.prems dict_set_subset[of u "scenario_id r" r] by auto
  from Cons.IH[OF this] show ?case by simp
qed

lemma filter_key_single:
  "distinct (map fst xs) \<Longrightarrow> map_of xs k = Some v \<Longrightarrow>
   filter (\<lambda>kv. fst kv = k) xs = [(k, v)]"
proof (induction xs)
  case Nil
  then show ?case by simp
next
  case (Cons a xs)
  show ?case
  proof (cases "fst a = k")
    case True
    with Cons.prems have "a = (k, v)" by (cases a) auto
    moreover have "filter (\<lambda>kv. fst kv = k) xs = []"
      using Cons.prems(1) True by (force simp: filter_empty_conv intro: rev_image_eqI)
    ultimately show ?thesis by simp
  next
    case False
    with Cons show ?thesis by (cases a) auto
  qed
qed

lemma delete_loop_filter:
  "delete_loop d uid sids stored =
     filter (\<lambda>r. \<not> (userid r = uid
                     \<and> (\<exists>opt \<in> set (scenariooption d).
                           scenariooptionid opt = response_optionid r
                           \<and> scenarioid opt \<in> set sids))) stored"
proof (induction sids arbitrary: stored)
  case Nil
  then show ?case by simp
next
  case (Cons sid sids)
  let ?ids = "map scenariooptionid (filter (\<lambda>opt. scenarioid opt = sid) (scenariooption d))"
  have m: "response_optionid r \<in> set ?ids \<longleftrightarrow>
           (\<exists>opt \<in> set (scenariooption d).
               scenariooptionid opt = response_optionid r \<and> scenarioid opt = sid)" for r
    by (force simp: image_iff)
  have e: "(if ?ids \<noteq> []
            then filter (\<lambda>r. \<not> (userid r = uid \<and> response_optionid r \<in> set ?ids)) stored
            else stored)
           = filter (\<lambda>r. \<not> (userid r = uid \<and> response_optionid r \<in> set ?ids)) stored"
    by (cases "?ids = []") simp_all
  let ?F = "\<lambda>r. \<not> (userid r = uid \<and> response_optionid r \<in> set ?ids)"
  let ?G = "\<lambda>r. \<not> (userid r = uid
                     \<and> (\<exists>opt \<in> set (scenariooption d).
                           scenariooptionid opt = response_optionid r
                           \<and> scenarioid opt \<in> set sids))"
  have "delete_loop d uid (sid # sids) stored = delete_loop d uid sids (filter ?F stored)"
    by (simp only: delete_loop.simps Let_def e)
  also have "\<dots> = filter ?G (filter ?F stored)" by (rule Cons.IH)
  also have "\<dots> = filter (\<lambda>r. ?F r \<and> ?G r) stored" by (simp add: conj_commute)
  also have "\<dots> = filter (\<lambda>r. \<not> (userid r = uid
                     \<and> (\<exists>opt \<in> set (scenariooption d).
                           scenariooptionid opt = response_optionid r
                           \<and> scenarioid opt \<in> set (sid # sids)))) stored"
    by (rule filter_cong[OF refl]) (simp only: m, auto)
  finally show ?case .
qed

lemma insert_loop_Inr:
  "insert_loop d uid rs acc = Inr out \<Longrightarrow>
   out = acc @ map (new_row d uid) rs
   \<and> (\<forall>r \<in> set rs. \<exists>oid. convert_option_letter_to_scenariooptionid d (scenario_id r)
                              (option_letter r) = Inr oid)"
proof (induction rs arbitrary: acc)
  case Nil
  then show ?case by simp
next
  case (Cons r rs)
  from Cons.prems obtain oid where
    c: "convert_option_letter_to_scenariooptionid d (scenario_id r) (option_letter r) = Inr oid"
    and rest: "insert_loop d uid rs (acc @ [\<lparr>userid = uid, response_optionid = oid\<rparr>]) = Inr out"
    by (auto split: sum.splits)
  from Cons.IH[OF rest] c show ?case by (simp add: new_row_def)
qed

lemma convert_in_scenario:
  "convert_option_letter_to_scenariooptionid d sid l = Inr oid \<Longrightarrow>
   \<exists>opt \<in> set (scenariooption d). scenariooptionid opt = oid \<and> scenarioid opt = sid"
proof -
  assume a: "convert_option_letter_to_scenariooptionid d sid l = Inr oid"
  then obtain c where u: "upper l = [c]"
    by (auto simp: convert_option_letter_to_scenariooptionid_def Let_def
        split: if_splits list.splits)
  with a have c: "0 \<le> int (of_char c) - int (of_char CHR ''A'')"
    "int (of_char c) - int (of_char CHR ''A'') < int (length (options_of d sid))"
    "oid = scenariooptionid (options_of d sid ! nat (int (of_char c) - int (of_char CHR ''A'')))"
    by (auto simp: convert_option_letter_to_scenariooptionid_def Let_def split: if_splits)
  let ?i = "nat (int (of_char c) - int (of_char CHR ''A''))"
  from c(1,2) have "?i < length (options_of d sid)" by linarith
  then have "options_of d sid ! ?i \<in> set (options_of d sid)" by simp
  with c(3) show ?thesis unfolding options_of_set by blast
qed

lemma option_scenario_Some:
  "option_scenario d oid = Some sid \<Longrightarrow>
   \<exists>opt \<in> set (scenariooption d). scenariooptionid opt = oid \<and> scenarioid opt = sid"
  by (auto simp: option_scenario_def find_Some_iff)

lemma option_scenario_pk:
  assumes "distinct (map scenariooptionid (scenariooption d))"
      and "opt \<in> set (scenariooption d)"
  shows "option_scenario d (scenariooptionid opt) = Some (scenarioid opt)"
proof -
  have "find (\<lambda>x. scenariooptionid x = scenariooptionid opt) (scenariooption d) \<noteq> None"
    using assms(2) by (auto simp: find_None_iff)
  then obtain x where x: "find (\<lambda>x. scenariooptionid x = scenariooptionid opt)
                           (scenariooption d) = Some x" by blast
  then have "x \<in> set (scenariooption d)" "scenariooptionid x = scenariooptionid opt"
    by (auto simp: find_Some_iff)
  moreover from assms(1) have "inj_on scenariooptionid (set (scenariooption d))"
    by (simp add: distinct_map)
  ultimately have "x = opt" using assms(2) by (auto dest: inj_onD)
  with x show ?thesis by (simp add: option_scenario_def)
qed

lemma save_user_responses_Inl:
  "save_user_responses d responses uid = (d', Inl e) \<Longrightarrow> d' = d"
  by (auto simp: save_user_responses_def Let_def split: sum.splits if_splits)

lemma save_user_responses_Inr:
  assumes "save_user_responses d responses uid = (d', Inr n)"
  shows "d' = d\<lparr>scenarioresponse :=
                 delete_loop d uid (map fst (unique_loop responses [])) (scenarioresponse d)
                 @ map (new_row d uid) (map snd (unique_loop responses []))\<rparr>
       \<and> n = length (unique_loop responses [])
       \<and> (\<forall>r \<in> set (map snd (unique_loop responses [])).
             \<exists>oid. convert_option_letter_to_scenariooptionid d (scenario_id r)
                     (option_letter r) = Inr oid)"
proof -
  from assms obtain new where
    i: "insert_loop d uid (map snd (unique_loop responses [])) [] = Inr new"
    and d': "d' = d\<lparr>scenarioresponse :=
                 delete_loop d uid (map fst (unique_loop responses [])) (scenarioresponse d)
                 @ new\<rparr>"
    and n: "n = length new"
    by (auto simp: save_user_responses_def Let_def split: sum.splits if_splits)
  from insert_loop_Inr[OF i] d' n show ?thesis by simp
qed

lemma option_scenario_update [simp]:
  "option_scenario (d\<lparr>scenarioresponse := rs\<rparr>) = option_scenario d"
  by (simp add: option_scenario_def fun_eq_iff)


lemma save_user_responses_success:
  assumes pk: "distinct (map scenariooptionid (scenariooption d))"
      and sv: "save_user_responses d responses uid = (d', Inr n)"
  shows "scenariooption d' = scenariooption d"
    and "n = card (scenario_id ` set responses)"
    and "sid \<in> scenario_id ` set responses \<Longrightarrow>
           \<exists>oid. convert_option_letter_to_scenariooptionid d sid (chosen_letter responses sid)
                    = Inr oid
                 \<and> responses_for d' uid sid = [\<lparr>userid = uid, response_optionid = oid\<rparr>]"
    and "sid \<notin> scenario_id ` set responses \<Longrightarrow>
           responses_for d' uid sid = responses_for d uid sid"
    and "u \<noteq> uid \<Longrightarrow> filter (\<lambda>r. userid r = u) (scenarioresponse d')
                       = filter (\<lambda>r. userid r = u) (scenarioresponse d)"
proof -
  let ?U = "unique_loop responses []"
  let ?S = "scenario_id ` set responses"
  let ?Q = "\<lambda>r. \<not> (userid r = uid
                     \<and> (\<exists>opt \<in> set (scenariooption d).
                           scenariooptionid opt = response_optionid r
                           \<and> scenarioid opt \<in> set (map fst ?U)))"
  let ?rem = "filter ?Q (scenarioresponse d)"
  let ?new = "map (new_row d uid) (map snd ?U)"
  let ?P = "\<lambda>s r. userid r = uid \<and> option_scenario d (response_optionid r) = Some s"
  have Ud: "distinct (map fst ?U)" by (rule unique_loop_distinct) simp
  have Uk: "fst ` set ?U = ?S" by (simp add: unique_loop_keys)
  have Ue: "\<forall>kr \<in> set ?U. scenario_id (snd kr) = fst kr"
    by (rule unique_loop_key_eq) simp
  from save_user_responses_Inr[OF sv]
  have d': "d' = d\<lparr>scenarioresponse := ?rem @ ?new\<rparr>"
    and n: "n = length ?U"
    and conv: "\<forall>r \<in> set (map snd ?U).
             \<exists>oid. convert_option_letter_to_scenariooptionid d (scenario_id r)
                     (option_letter r) = Inr oid"
    by (simp_all add: delete_loop_filter)
  show "scenariooption d' = scenariooption d" by (simp add: d')
  have "card ?S = card (set (map fst ?U))" by (simp add: Uk)
  also have "\<dots> = length (map fst ?U)" by (rule distinct_card[OF Ud])
  finally show "n = card ?S" by (simp add: n)
  have newsc: "option_scenario d (response_optionid (new_row d uid r)) = Some (scenario_id r)"
    if "r \<in> snd ` set ?U" for r
  proof -
    from conv that obtain oid where
      c: "convert_option_letter_to_scenariooptionid d (scenario_id r) (option_letter r) = Inr oid"
      by auto
    from convert_in_scenario[OF c] obtain opt where
      "opt \<in> set (scenariooption d)" "scenariooptionid opt = oid" "scenarioid opt = scenario_id r"
      by blast
    with option_scenario_pk[OF pk, of opt] c show ?thesis by (simp add: new_row_def)
  qed
  have A: "filter (?P s) ?new
           = map (new_row d uid) (map snd (filter (\<lambda>kr. fst kr = s) ?U))" for s
  proof -
    have "filter (?P s) ?new
          = map (new_row d uid) (map snd (filter (\<lambda>kr. ?P s (new_row d uid (snd kr))) ?U))"
      by (simp add: filter_map o_def)
    also have "filter (\<lambda>kr. ?P s (new_row d uid (snd kr))) ?U = filter (\<lambda>kr. fst kr = s) ?U"
    proof (rule filter_cong[OF refl])
      fix kr assume kr: "kr \<in> set ?U"
      then have "snd kr \<in> snd ` set ?U" by simp
      from newsc[OF this] Ue kr
      show "?P s (new_row d uid (snd kr)) = (fst kr = s)" by (auto simp: new_row_def)
    qed
    finally show ?thesis .
  qed
  have rf: "responses_for d' uid s = filter (?P s) ?rem @ filter (?P s) ?new" for s
    by (simp add: responses_for_def d')
  {
    assume sid: "sid \<in> ?S"
    then obtain x xs where f: "filter (\<lambda>r. scenario_id r = sid) responses = x # xs"
      by (cases "filter (\<lambda>r. scenario_id r = sid) responses")
         (auto simp: filter_empty_conv)
    let ?l = "last (filter (\<lambda>r. scenario_id r = sid) responses)"
    have m: "map_of ?U sid = Some ?l"
      by (simp add: unique_loop_map_of f)
    from filter_key_single[OF Ud m]
    have one: "filter (\<lambda>kr. fst kr = sid) ?U = [(sid, ?l)]" .
    have "(sid, ?l) \<in> set (filter (\<lambda>kr. fst kr = sid) ?U)" by (simp only: one) simp
    then have inU: "(sid, ?l) \<in> set ?U" by simp
    with Ue have ls: "scenario_id ?l = sid" by auto
    from inU have "?l \<in> set (map snd ?U)" by force
    with conv ls obtain oid where
      c: "convert_option_letter_to_scenariooptionid d sid (option_letter ?l) = Inr oid"
      by auto
    have rem0: "filter (?P sid) ?rem = []"
    proof -
      have "\<not> (?Q r \<and> ?P sid r)" for r
      proof
        assume a: "?Q r \<and> ?P sid r"
        then obtain opt where "opt \<in> set (scenariooption d)"
          "scenariooptionid opt = response_optionid r" "scenarioid opt = sid"
          using option_scenario_Some[of d "response_optionid r" sid] by auto
        moreover have "sid \<in> set (map fst ?U)" using sid Uk by simp
        ultimately show False using a by blast
      qed
      then have "\<forall>r \<in> set ?rem. \<not> ?P sid r" by (simp only: set_filter mem_Collect_eq) blast
      then show ?thesis by (simp only: filter_empty_conv)
    qed
    have "responses_for d' uid sid = [new_row d uid ?l]"
      by (simp only: rf rem0 A one) simp
    also have "new_row d uid ?l = \<lparr>userid = uid, response_optionid = oid\<rparr>"
      using c ls by (simp add: new_row_def)
    finally show "\<exists>oid. convert_option_letter_to_scenariooptionid d sid (chosen_letter responses sid)
                    = Inr oid
                 \<and> responses_for d' uid sid = [\<lparr>userid = uid, response_optionid = oid\<rparr>]"
      using c by (auto simp: chosen_letter_def)
  }
  {
    assume sid: "sid \<notin> ?S"
    have "filter (\<lambda>kr. fst kr = sid) ?U = []"
      using sid Uk by (force simp: filter_empty_conv)
    then have new0: "filter (?P sid) ?new = []" by (simp only: A) simp
    have "filter (?P sid) ?rem = filter (?P sid) (scenarioresponse d)"
    proof -
      have "(?Q r \<and> ?P sid r) = ?P sid r" for r
      proof (cases "?P sid r")
        case False
        then show ?thesis by blast
      next
        case True
        have "?Q r"
        proof (rule notI, elim conjE bexE)
          fix opt assume o: "opt \<in> set (scenariooption d)"
            "scenariooptionid opt = response_optionid r"
            "scenarioid opt \<in> set (map fst ?U)"
          from option_scenario_pk[OF pk o(1)] o(2) True have "scenarioid opt = sid" by simp
          with o(3) sid Uk show False by simp
        qed
        with True show ?thesis by blast
      qed
      then have eq: "(\<lambda>r. ?Q r \<and> ?P sid r) = ?P sid" by (intro ext)
      have "filter (?P sid) ?rem = filter (\<lambda>r. ?Q r \<and> ?P sid r) (scenarioresponse d)"
        by (simp only: filter_filter)
      then show ?thesis by (simp only: eq)
    qed
    then show "responses_for d' uid sid = responses_for d uid sid"
      by (simp only: rf new0) (simp add: responses_for_def)
  }
  {
    assume u: "u \<noteq> uid"
    have "filter (\<lambda>r. userid r = u) ?new = []"
      by (simp add: filter_empty_conv new_row_def u[symmetric])
    moreover have "filter (\<lambda>r. userid r = u) ?rem = filter (\<lambda>r. userid r = u) (scenarioresponse d)"
      using u by (auto intro: filter_cong)
    ultimately show "filter (\<lambda>r. userid r = u) (scenarioresponse d')
                       = filter (\<lambda>r. userid r = u) (scenarioresponse d)"
      by (simp add: d')
  }
qed


lemma responses_for_other_user:
  assumes "scenariooption d' = scenariooption d"
      and "filter (\<lambda>r. userid r = u) (scenarioresponse d')
           = filter (\<lambda>r. userid r = u) (scenarioresponse d)"
  shows "responses_for d' u sid = responses_for d u sid"
proof -
  have os: "option_scenario d' = option_scenario d"
    by (simp add: option_scenario_def fun_eq_iff assms(1))
  have "responses_for x u sid
        = filter (\<lambda>r. option_scenario x (response_optionid r) = Some sid)
                 (filter (\<lambda>r. userid r = u) (scenarioresponse x))" for x
    by (simp add: responses_for_def)
  then show ?thesis by (simp only: os assms(2))
qed

section \<open>Claims about the option letters and the stored responses\<close>

text \<open>
  Claim C9, as amended. With option identifiers that are unique (the primary key), the
  K-th option of a scenario in the order of its identifiers (counting from 0) is served
  with the letter \<open>chr(65 + K)\<close> and enters the score map of the transformation under
  the letter \<open>chr(65 + K)\<close>. For \<open>K < 32\<close> the conversion of the submitted letter
  \<open>chr(65 + K)\<close> gives the identifier of that option, and the letter re-derived for the
  stored option with that identifier is the submitted letter again.
\<close>

theorem option_letter_round_trip:
  assumes "distinct (map scenariooptionid (scenariooption d))"
      and "K < length (options_of d sid)"
  shows "options_with_letters d sid ! K
           = ([letter_of_index K], optiontext (options_of d sid ! K))
       \<and> score_map_key d (options_of d sid ! K) = Inr (sid, [letter_of_index K])
       \<and> (K < 32 \<longrightarrow>
            convert_option_letter_to_scenariooptionid d sid [letter_of_index K]
              = Inr (scenariooptionid (options_of d sid ! K))
            \<and> (\<forall>opt \<in> set (scenariooption d).
                  convert_option_letter_to_scenariooptionid d sid [letter_of_index K]
                    = Inr (scenariooptionid opt) \<longrightarrow>
                  score_map_key d opt = Inr (sid, [letter_of_index K])))"
proof -
  have rt: "score_map_key d opt = Inr (sid, [letter_of_index K])"
    if k: "K < 32" and o: "opt \<in> set (scenariooption d)"
      and c: "convert_option_letter_to_scenariooptionid d sid [letter_of_index K]
                = Inr (scenariooptionid opt)" for opt
  proof -
    from c convert_nth[OF assms(2) k]
    have e: "scenariooptionid opt = scenariooptionid (options_of d sid ! K)" by simp
    have "options_of d sid ! K \<in> set (options_of d sid)" using assms(2) by simp
    then have m: "options_of d sid ! K \<in> set (scenariooption d)" by (simp add: options_of_set)
    from assms(1) have "inj_on scenariooptionid (set (scenariooption d))"
      by (simp add: distinct_map)
    from inj_onD[OF this e o m] have "opt = options_of d sid ! K" .
    then show ?thesis by (simp add: score_map_key_nth[OF assms])
  qed
  show ?thesis
    using options_with_letters_nth[OF assms(2)] score_map_key_nth[OF assms]
      convert_nth[OF assms(2)] rt by blast
qed

theorem option_letter_round_trip_witness:
  "options_with_letters example_db 1 ! 2 = (''C'', ''c'')
   \<and> score_map_key example_db (options_of example_db 1 ! 2) = Inr (1, ''C'')
   \<and> convert_option_letter_to_scenariooptionid example_db 1 ''C'' = Inr 3"
proof -
  have h1: "distinct (map scenariooptionid (scenariooption example_db))" by code_simp
  have h2: "2 < length (options_of example_db 1)" by code_simp
  have l: "[letter_of_index 2] = ''C''" by code_simp
  have o: "options_of example_db 1 ! 2
           = \<lparr>scenariooptionid = 3, scenarioid = 1, optiontext = ''c'', score = 3\<rparr>"
    by code_simp
  from option_letter_round_trip[OF h1 h2]
  show ?thesis unfolding l o by simp
qed

text \<open>
  Claim C9 as stated fails for a scenario with more than 32 options: the conversion
  upper-cases the submitted letter, so the letter \<open>a\<close> served for the option at
  position 32 (identifier 33 below) is converted to the option at position 0
  (identifier 1).
\<close>

theorem option_letter_round_trip_counterexample:
  "fst (options_with_letters wide_db 1 ! 32) = ''a''
   \<and> length (options_of wide_db 1) = 33
   \<and> scenariooptionid (options_of wide_db 1 ! 32) = 33
   \<and> convert_option_letter_to_scenariooptionid wide_db 1 ''a'' = Inr 1
   \<and> scenariooptionid (options_of wide_db 1 ! 0) = 1"
  by code_simp

text \<open>
  Claim C8. With unique option identifiers (the primary key of the option table), a
  successful call of \<open>save_user_responses\<close> leaves, for every scenario of the payload,
  exactly one stored response of the user to that scenario: the option that the
  payload's last item for the scenario chooses. The user's responses to the other
  scenarios and the responses of every other user are unchanged, the number returned is
  the number of distinct scenarios of the payload, and a state with at most one response
  per user and scenario stays one. A call that raises leaves the state as it was.
\<close>

theorem save_user_responses_replaces:
  assumes "distinct (map scenariooptionid (scenariooption d))"
  shows "case save_user_responses d responses uid of
           (d', Inl e) \<Rightarrow> d' = d
         | (d', Inr n) \<Rightarrow>
             scenariooption d' = scenariooption d
           \<and> n = card (scenario_id ` set responses)
           \<and> (\<forall>sid \<in> scenario_id ` set responses.
                 \<exists>oid. convert_option_letter_to_scenariooptionid d sid
                          (chosen_letter responses sid) = Inr oid
                     \<and> responses_for d' uid sid = [\<lparr>userid = uid, response_optionid = oid\<rparr>])
           \<and> (\<forall>sid. sid \<notin> scenario_id ` set responses \<longrightarrow>
                 responses_for d' uid sid = responses_for d uid sid)
           \<and> (\<forall>u sid. u \<noteq> uid \<longrightarrow> responses_for d' u sid = responses_for d u sid)
           \<and> (at_most_one_response d \<longrightarrow> at_most_one_response d')"
proof -
  obtain d' res where r: "save_user_responses d responses uid = (d', res)"
    by (cases "save_user_responses d responses uid")
  show ?thesis
  proof (cases res)
    case (Inl e)
    with r save_user_responses_Inl[of d responses uid d' e] show ?thesis by simp
  next
    case (Inr n)
    with r have sv: "save_user_responses d responses uid = (d', Inr n)" by simp
    note s = save_user_responses_success[OF assms sv]
    have other: "responses_for d' u sid = responses_for d u sid" if "u \<noteq> uid" for u sid
      by (rule responses_for_other_user[OF s(1) s(5)[OF that]])
    have inv: "at_most_one_response d'" if a: "at_most_one_response d"
      unfolding at_most_one_response_def
    proof (intro allI)
      fix u sid
      show "length (responses_for d' u sid) \<le> 1"
      proof (cases "u = uid")
        case False
        with other[of u sid] a show ?thesis by (simp add: at_most_one_response_def)
      next
        case True
        show ?thesis
        proof (cases "sid \<in> scenario_id ` set responses")
          case in_batch: True
          from s(3)[OF in_batch] True show ?thesis by auto
        next
          case out: False
          from s(4)[OF out] True a show ?thesis by (simp add: at_most_one_response_def)
        qed
      qed
    qed
    have "scenariooption d' = scenariooption d
           \<and> n = card (scenario_id ` set responses)
           \<and> (\<forall>sid \<in> scenario_id ` set responses.
                 \<exists>oid. convert_option_letter_to_scenariooptionid d sid
                          (chosen_letter responses sid) = Inr oid
                     \<and> responses_for d' uid sid = [\<lparr>userid = uid, response_optionid = oid\<rparr>])
           \<and> (\<forall>sid. sid \<notin> scenario_id ` set responses \<longrightarrow>
                 responses_for d' uid sid = responses_for d uid sid)
           \<and> (\<forall>u sid. u \<noteq> uid \<longrightarrow> responses_for d' u sid = responses_for d u sid)
           \<and> (at_most_one_response d \<longrightarrow> at_most_one_response d')"
      using s(1) s(2) s(3) s(4) other inv by blast
    then show ?thesis by (simp add: sv)
  qed
qed

theorem save_user_responses_replaces_witness:
  "save_user_responses example_db
      [\<lparr>scenario_id = 1, option_letter = ''c''\<rparr>, \<lparr>scenario_id = 1, option_letter = ''B''\<rparr>] 7
     = (example_db\<lparr>scenarioresponse :=
          [\<lparr>userid = 8, response_optionid = 2\<rparr>, \<lparr>userid = 7, response_optionid = 12\<rparr>,
           \<lparr>userid = 7, response_optionid = 2\<rparr>]\<rparr>, Inr 1)
   \<and> 1 = card (scenario_id `
          set [\<lparr>scenario_id = 1, option_letter = ''c''\<rparr>, \<lparr>scenario_id = 1, option_letter = ''B''\<rparr>])
   \<and> save_user_responses example_db
      [\<lparr>scenario_id = 1, option_letter = ''c''\<rparr>, \<lparr>scenario_id = 2, option_letter = ''Z''\<rparr>] 7
     = (example_db, Inl (ValueError ''Option letter out of range for scenario''))"
proof -
  let ?rs = "[\<lparr>scenario_id = 1, option_letter = ''c''\<rparr>, \<lparr>scenario_id = 1, option_letter = ''B''\<rparr>]"
  have pk: "distinct (map scenariooptionid (scenariooption example_db))" by code_simp
  have e1: "save_user_responses example_db ?rs 7
     = (example_db\<lparr>scenarioresponse :=
          [\<lparr>userid = 8, response_optionid = 2\<rparr>, \<lparr>userid = 7, response_optionid = 12\<rparr>,
           \<lparr>userid = 7, response_optionid = 2\<rparr>]\<rparr>, Inr 1)"
    by code_simp
  have e2: "save_user_responses example_db
      [\<lparr>scenario_id = 1, option_letter = ''c''\<rparr>, \<lparr>scenario_id = 2, option_letter = ''Z''\<rparr>] 7
     = (example_db, Inl (ValueError ''Option letter out of range for scenario''))"
    by code_simp
  from save_user_responses_replaces[OF pk, of ?rs 7]
  have "1 = card (scenario_id ` set ?rs)" unfolding e1 by simp
  with e1 e2 show ?thesis by (intro conjI)
qed

section \<open>Lemmas about the artifact loader\<close>

lemma max_by_mtime_spec:
  "max_by_mtime best fs \<in> set (best # fs)
   \<and> (\<forall>g \<in> set (best # fs). st_mtime g \<le> st_mtime (max_by_mtime best fs))"
proof (induction fs arbitrary: best)
  case Nil
  then show ?case by simp
next
  case (Cons f fs)
  show ?case
  proof (cases "st_mtime best < st_mtime f")
    case True
    with Cons.IH[of f] show ?thesis by fastforce
  next
    case False
    with Cons.IH[of best] show ?thesis by fastforce
  qed
qed

lemma find_in_set: "find P xs = Some x \<Longrightarrow> x \<in> set xs \<and> P x"
  by (induction xs) (auto split: if_splits)

lemma joblib_load_present:
  "present files n \<longleftrightarrow> (\<exists>obj. joblib_load files n = Inr obj)"
proof (cases "find (\<lambda>f. file_name f = n) files")
  case None
  then have "\<forall>x \<in> set files. file_name x \<noteq> n" by (simp add: find_None_iff)
  with None show ?thesis by (auto simp: present_def joblib_load_def)
next
  case (Some f)
  from find_in_set[OF Some] Some show ?thesis
    by (auto simp: present_def joblib_load_def)
qed

lemma joblib_load_Inl:
  "joblib_load files n = Inl e \<Longrightarrow> e = FileNotFoundError n \<and> \<not> present files n"
  using joblib_load_present[of files n]
  by (cases "find (\<lambda>f. file_name f = n) files") (auto simp: joblib_load_def)

lemma joblib_load_absent:
  "\<not> present files n \<Longrightarrow> joblib_load files n = Inl (FileNotFoundError n)"
  using joblib_load_present[of files n] joblib_load_Inl[of files n]
  by (cases "joblib_load files n") auto

lemma joblib_load_in_files:
  "joblib_load files n = Inr obj \<Longrightarrow>
   \<exists>f \<in> set files. file_name f = n \<and> unpickled f = obj"
  by (cases "find (\<lambda>f. file_name f = n) files")
     (auto simp: joblib_load_def dest: find_in_set)

lemma load_latest_spec:
  "(glob files prefix suffix \<noteq> [] \<longrightarrow>
      (\<exists>f \<in> set (glob files prefix suffix).
          (\<forall>g \<in> set (glob files prefix suffix). st_mtime g \<le> st_mtime f)
          \<and> load_latest files prefix suffix legacy = Inr (unpickled f)))
   \<and> (glob files prefix suffix = [] \<longrightarrow>
        load_latest files prefix suffix legacy = joblib_load files legacy)"
proof (cases "glob files prefix suffix")
  case Nil
  then show ?thesis by (simp add: load_latest_def)
next
  case (Cons f fs)
  from max_by_mtime_spec[of f fs] Cons show ?thesis
    by (auto simp: load_latest_def)
qed


lemma load_latest_Inl:
  "load_latest files prefix suffix legacy = Inl e \<Longrightarrow> e = FileNotFoundError legacy"
  by (auto simp: load_latest_def split: list.splits dest: joblib_load_Inl)

lemma init_Inr:
  "init files = Inr b \<longleftrightarrow>
     (\<exists>m s l g names. load_model files = Inr m
        \<and> joblib_load files ''scaler.joblib'' = Inr s
        \<and> load_encoder files = Inr l
        \<and> joblib_load files ''grup_ortalamalari.joblib'' = Inr g
        \<and> first_entry_keys g = Inr names
        \<and> b = \<lparr>model = m, scaler = s, le = l, grup_ortalamalari_table = g,
                 feature_order = names\<rparr>)"
  by (auto simp: init_def split: sum.splits)

section \<open>Claims about the artifact loader\<close>

text \<open>
  Claim C7. The classifier and the label encoder, the two kinds with a pattern for
  optimized files, are loaded from a file that matches the pattern and has the latest
  modification time among the matching files; without a matching file they are loaded
  from the legacy file of the kind. The scaler and the group-average table have the one
  fixed file only. The fields of a loaded service are these selections, and when for
  some kind neither an optimized nor the legacy file exists the constructor raises
  \<open>FileNotFoundError\<close>.
\<close>

theorem init_selects_latest:
  "(glob files ''lightgbm_optimized_'' ''.pkl'' \<noteq> [] \<longrightarrow>
      (\<exists>f \<in> set (glob files ''lightgbm_optimized_'' ''.pkl'').
          (\<forall>g \<in> set (glob files ''lightgbm_optimized_'' ''.pkl''). st_mtime g \<le> st_mtime f)
          \<and> load_model files = Inr (unpickled f)))
   \<and> (glob files ''lightgbm_optimized_'' ''.pkl'' = [] \<longrightarrow>
        load_model files = joblib_load files ''best_model.joblib'')
   \<and> (glob files ''label_encoder_'' ''.pkl'' \<noteq> [] \<longrightarrow>
      (\<exists>f \<in> set (glob files ''label_encoder_'' ''.pkl'').
          (\<forall>g \<in> set (glob files ''label_encoder_'' ''.pkl''). st_mtime g \<le> st_mtime f)
          \<and> load_encoder files = Inr (unpickled f)))
   \<and> (glob files ''label_encoder_'' ''.pkl'' = [] \<longrightarrow>
        load_encoder files = joblib_load files ''label_encoder.joblib'')
   \<and> (\<forall>b. init files = Inr b \<longrightarrow>
          load_model files = Inr (model b)
        \<and> joblib_load files ''scaler.joblib'' = Inr (scaler b)
        \<and> load_encoder files = Inr (le b)
        \<and> joblib_load files ''grup_ortalamalari.joblib'' = Inr (grup_ortalamalari_table b))
   \<and> ((glob files ''lightgbm_optimized_'' ''.pkl'' = [] \<and> \<not> present files ''best_model.joblib'')
        \<or> \<not> present files ''scaler.joblib''
        \<or> (glob files ''label_encoder_'' ''.pkl'' = [] \<and> \<not> present files ''label_encoder.joblib'')
        \<or> \<not> present files ''grup_ortalamalari.joblib''
       \<longrightarrow> (\<exists>n. init files = Inl (FileNotFoundError n)))"
proof -
  note m = load_latest_spec[of files "''lightgbm_optimized_''" "''.pkl''" "''best_model.joblib''",
      folded load_model_def]
  note l = load_latest_spec[of files "''label_encoder_''" "''.pkl''" "''label_encoder.joblib''",
      folded load_encoder_def]
  have b: "\<forall>b. init files = Inr b \<longrightarrow>
          load_model files = Inr (model b)
        \<and> joblib_load files ''scaler.joblib'' = Inr (scaler b)
        \<and> load_encoder files = Inr (le b)
        \<and> joblib_load files ''grup_ortalamalari.joblib'' = Inr (grup_ortalamalari_table b)"
    by (auto simp: init_Inr)
  have miss: "\<exists>n. init files = Inl (FileNotFoundError n)"
    if h: "(glob files ''lightgbm_optimized_'' ''.pkl'' = [] \<and> \<not> present files ''best_model.joblib'')
        \<or> \<not> present files ''scaler.joblib''
        \<or> (glob files ''label_encoder_'' ''.pkl'' = [] \<and> \<not> present files ''label_encoder.joblib'')
        \<or> \<not> present files ''grup_ortalamalari.joblib''"
  proof -
    have some: "(\<exists>e. load_model files = Inl e) \<or> (\<exists>e. joblib_load files ''scaler.joblib'' = Inl e)
          \<or> (\<exists>e. load_encoder files = Inl e)
          \<or> (\<exists>e. joblib_load files ''grup_ortalamalari.joblib'' = Inl e)"
      using h m l joblib_load_absent by metis
    show ?thesis
    proof (cases "load_model files")
      case (Inl e)
      with load_latest_Inl[of files _ _ _ e] show ?thesis
        by (auto simp: init_def load_model_def)
    next
      case m1: (Inr mo)
      show ?thesis
      proof (cases "joblib_load files ''scaler.joblib''")
        case (Inl e)
        with m1 joblib_load_Inl[OF Inl] show ?thesis by (auto simp: init_def)
      next
        case s1: (Inr sc)
        show ?thesis
        proof (cases "load_encoder files")
          case (Inl e)
          with m1 s1 load_latest_Inl[of files _ _ _ e] show ?thesis
            by (auto simp: init_def load_encoder_def)
        next
          case l1: (Inr en)
          show ?thesis
          proof (cases "joblib_load files ''grup_ortalamalari.joblib''")
            case (Inl e)
            with m1 s1 l1 joblib_load_Inl[OF Inl] show ?thesis by (auto simp: init_def)
          next
            case (Inr g)
            with m1 s1 l1 some show ?thesis by simp
          qed
        qed
      qed
    qed
  qed
  have miss': "(glob files ''lightgbm_optimized_'' ''.pkl'' = [] \<and> \<not> present files ''best_model.joblib'')
        \<or> \<not> present files ''scaler.joblib''
        \<or> (glob files ''label_encoder_'' ''.pkl'' = [] \<and> \<not> present files ''label_encoder.joblib'')
        \<or> \<not> present files ''grup_ortalamalari.joblib''
       \<longrightarrow> (\<exists>n. init files = Inl (FileNotFoundError n))"
    using miss by (intro impI)
  show ?thesis
    by (intro conjI conjunct1[OF m] conjunct2[OF m] conjunct1[OF l] conjunct2[OF l] b miss')
qed

theorem init_selects_latest_witness:
  "init example_files
     = Inr \<lparr>model = ClassifierObject [''Empathy'', ''Logic''],
            scaler = ScalerObject [''Empathy'', ''Logic''],
            le = EncoderObject [''Doctor'', ''Engineer''],
            grup_ortalamalari_table = GroupAverages example_table,
            feature_order = [''Empathy'', ''Logic'']\<rparr>
   \<and> load_encoder example_files = joblib_load example_files ''label_encoder.joblib''
   \<and> (\<exists>n. init (drop 2 example_files) = Inl (FileNotFoundError n))"
proof -
  have e: "init example_files
     = Inr \<lparr>model = ClassifierObject [''Empathy'', ''Logic''],
            scaler = ScalerObject [''Empathy'', ''Logic''],
            le = EncoderObject [''Doctor'', ''Engineer''],
            grup_ortalamalari_table = GroupAverages example_table,
            feature_order = [''Empathy'', ''Logic'']\<rparr>"
    by code_simp
  have g: "glob example_files ''label_encoder_'' ''.pkl'' = []" by code_simp
  have p: "\<not> present (drop 2 example_files) ''scaler.joblib''" by code_simp
  from init_selects_latest[of example_files] g
  have a: "load_encoder example_files = joblib_load example_files ''label_encoder.joblib''"
    by blast
  from init_selects_latest[of "drop 2 example_files"] p
  have b: "\<exists>n. init (drop 2 example_files) = Inl (FileNotFoundError n)" by blast
  from e a b show ?thesis by (intro conjI)
qed

text \<open>
  Claim C6, as amended. A loaded service has a group-average table with at least one
  entry, and its canonical feature order is the key order of the first entry of that
  table. No agreement of the artifacts is checked: whatever classifier, scaler and label
  encoder are selected, and whatever the other entries of the table list, loading
  succeeds with that feature order as soon as the four artifacts are found and the
  table has a first entry.
\<close>

theorem init_feature_order:
  "(\<forall>b. init files = Inr b \<longrightarrow>
      (\<exists>occupation row rest.
          grup_ortalamalari_table b = GroupAverages ((occupation, row) # rest)
          \<and> feature_order b = map fst row))
   \<and> (\<forall>m s l occupation row rest.
        load_model files = Inr m
        \<and> joblib_load files ''scaler.joblib'' = Inr s
        \<and> load_encoder files = Inr l
        \<and> joblib_load files ''grup_ortalamalari.joblib''
            = Inr (GroupAverages ((occupation, row) # rest)) \<longrightarrow>
        init files = Inr \<lparr>model = m, scaler = s, le = l,
                           grup_ortalamalari_table = GroupAverages ((occupation, row) # rest),
                           feature_order = map fst row\<rparr>)"
proof (intro conjI allI impI)
  fix b assume "init files = Inr b"
  then obtain g names where g: "grup_ortalamalari_table b = g"
    "first_entry_keys g = Inr names" "feature_order b = names"
    by (auto simp: init_Inr)
  from g(2) obtain occupation row rest where
    "g = GroupAverages ((occupation, row) # rest)" "names = map fst row"
    by (auto simp: first_entry_keys_def split: artifact.splits list.splits)
  with g show "\<exists>occupation row rest.
          grup_ortalamalari_table b = GroupAverages ((occupation, row) # rest)
          \<and> feature_order b = map fst row" by blast
next
  fix m s l occupation row rest
  assume "load_model files = Inr m
        \<and> joblib_load files ''scaler.joblib'' = Inr s
        \<and> load_encoder files = Inr l
        \<and> joblib_load files ''grup_ortalamalari.joblib''
            = Inr (GroupAverages ((occupation, row) # rest))"
  then show "init files = Inr \<lparr>model = m, scaler = s, le = l,
                           grup_ortalamalari_table = GroupAverages ((occupation, row) # rest),
                           feature_order = map fst row\<rparr>"
    by (simp add: init_def first_entry_keys_def)
qed

theorem init_feature_order_witness:
  "init example_files
     = Inr \<lparr>model = ClassifierObject [''Empathy'', ''Logic''],
            scaler = ScalerObject [''Empathy'', ''Logic''],
            le = EncoderObject [''Doctor'', ''Engineer''],
            grup_ortalamalari_table
              = GroupAverages ((''Doctor'', [(''Empathy'', PyFloat (Finite 4)), (''Logic'', PyFloat (Finite 3))])
                               # [(''Engineer'', [(''Empathy'', PyFloat (Finite 2)), (''Logic'', PyFloat (Finite 5))])]),
            feature_order = map fst [(''Empathy'', PyFloat (Finite 4)), (''Logic'', PyFloat (Finite 3))]\<rparr>"
proof -
  have h: "load_model example_files = Inr (ClassifierObject [''Empathy'', ''Logic''])
        \<and> joblib_load example_files ''scaler.joblib'' = Inr (ScalerObject [''Empathy'', ''Logic''])
        \<and> load_encoder example_files = Inr (EncoderObject [''Doctor'', ''Engineer''])
        \<and> joblib_load example_files ''grup_ortalamalari.joblib''
            = Inr (GroupAverages ((''Doctor'', [(''Empathy'', PyFloat (Finite 4)), (''Logic'', PyFloat (Finite 3))])
                               # [(''Engineer'', [(''Empathy'', PyFloat (Finite 2)), (''Logic'', PyFloat (Finite 5))])]))"
    by code_simp
  from init_feature_order[of example_files] h show ?thesis by blast
qed

text \<open>
  Claim C6 as stated fails: in the directory below the classifier and the scaler were
  fitted on the order Logic, Empathy, while the first entry of the group-average table
  lists Empathy, Logic. The artifacts do not agree, and loading succeeds with the
  feature order Empathy, Logic.
\<close>

theorem init_feature_order_counterexample:
  "init mismatched_files
     = Inr \<lparr>model = ClassifierObject [''Logic'', ''Empathy''],
            scaler = ScalerObject [''Logic'', ''Empathy''],
            le = EncoderObject [''Doctor'', ''Engineer''],
            grup_ortalamalari_table = GroupAverages example_table,
            feature_order = [''Empathy'', ''Logic'']\<rparr>
   \<and> artifacts_agree
        \<lparr>model = ClassifierObject [''Logic'', ''Empathy''],
         scaler = ScalerObject [''Logic'', ''Empathy''],
         le = EncoderObject [''Doctor'', ''Engineer''],
         grup_ortalamalari_table = GroupAverages example_table,
         feature_order = [''Empathy'', ''Logic'']\<rparr> = False"
  by code_simp

end
